theory Spec2Isabelle
  imports Complex_Main "HOL-Library.Word"
begin

section \<open>Strings, bytes and the platform's text codec\<close>

text \<open>
  A JavaScript string is a sequence of UTF-16 code units; a \<open>Uint8Array\<close> is a
  sequence of bytes. String literals of the source are written as HOL strings and
  converted with \<open>js\<close>.
\<close>

type_synonym js_string = "16 word list"
type_synonym bytes = "8 word list"

definition js :: "string \<Rightarrow> js_string" where
  "js s = map (\<lambda>c. of_nat (of_char c)) s"

text \<open>
  \<open>new TextEncoder().encode(s)\<close>: the string is first converted to scalar values
  (a surrogate pair becomes one code point, a lone surrogate becomes U+FFFD), then each
  scalar value is written in UTF-8.
\<close>

definition is_high_surrogate :: "16 word \<Rightarrow> bool" where
  "is_high_surrogate c \<longleftrightarrow> 0xD800 \<le> unat c \<and> unat c < 0xDC00"

definition is_low_surrogate :: "16 word \<Rightarrow> bool" where
  "is_low_surrogate c \<longleftrightarrow> 0xDC00 \<le> unat c \<and> unat c < 0xE000"

definition code_point_of_pair :: "16 word \<Rightarrow> 16 word \<Rightarrow> nat" where
  "code_point_of_pair c d = 0x10000 + (unat c - 0xD800) * 1024 + (unat d - 0xDC00)"

fun to_scalar_values :: "js_string \<Rightarrow> nat list" where
  "to_scalar_values [] = []"
| "to_scalar_values [c] =
     (if is_high_surrogate c \<or> is_low_surrogate c then [0xFFFD] else [unat c])"
| "to_scalar_values (c # d # cs) =
     (if is_high_surrogate c then
        (if is_low_surrogate d
         then code_point_of_pair c d # to_scalar_values cs
         else 0xFFFD # to_scalar_values (d # cs))
      else if is_low_surrogate c then 0xFFFD # to_scalar_values (d # cs)
      else unat c # to_scalar_values (d # cs))"

definition utf8_bytes :: "nat \<Rightarrow> bytes" where
  "utf8_bytes cp =
     (if cp < 0x80 then [of_nat cp]
      else if cp < 0x800 then
        [of_nat (0xC0 + cp div 64), of_nat (0x80 + cp mod 64)]
      else if cp < 0x10000 then
        [of_nat (0xE0 + cp div 4096), of_nat (0x80 + (cp div 64) mod 64),
         of_nat (0x80 + cp mod 64)]
      else
        [of_nat (0xF0 + cp div 262144), of_nat (0x80 + (cp div 4096) mod 64),
         of_nat (0x80 + (cp div 64) mod 64), of_nat (0x80 + cp mod 64)])"

definition TextEncoder_encode :: "js_string \<Rightarrow> bytes" where
  "TextEncoder_encode s = concat (map utf8_bytes (to_scalar_values s))"

text \<open>
  A number inside a template literal (\<open>`${cc},${value}`\<close>, \<open>`Invalid slot: ${slot}`\<close>)
  is printed by the language's number-to-string conversion. The numbers of this program
  are integers. An integer of magnitude below \<open>2\<^sup>5\<^sup>3\<close> is a Number and prints as its
  decimal digits.
\<close>

definition digit_char :: "nat \<Rightarrow> char" where
  "digit_char d = ''0123456789'' ! d"

fun show_nat :: "nat \<Rightarrow> string" where
  "show_nat n = (if n < 10 then [digit_char n] else show_nat (n div 10) @ [digit_char (n mod 10)])"

declare show_nat.simps [simp del]

text \<open>
  From \<open>2\<^sup>5\<^sup>3\<close> on, a Number is a 53-bit mantissa \<open>m\<close> (\<open>2\<^sup>5\<^sup>2 \<le> m < 2\<^sup>5\<^sup>3\<close>) times a power of
  two, \<open>m \<times> 2\<^sup>e\<close> with \<open>1 \<le> e \<le> 971\<close>. \<open>to_double a\<close> is the Number nearest to the integer
  \<open>a \<ge> 2\<^sup>5\<^sup>3\<close>, ties going to the even mantissa; \<open>None\<close> stands for \<open>Infinity\<close>. An
  integer that is not itself a Number reaches the program only as the Number nearest to it.
\<close>

fun bit_length :: "nat \<Rightarrow> nat" where
  "bit_length n = (if n = 0 then 0 else Suc (bit_length (n div 2)))"

declare bit_length.simps [simp del]

definition to_double :: "nat \<Rightarrow> (nat \<times> nat) option" where
  "to_double a =
     (let e = bit_length a - 53;
          q = a div 2 ^ e;
          r = a mod 2 ^ e;
          m = (if 2 ^ (e - 1) < r \<or> (r = 2 ^ (e - 1) \<and> odd q) then q + 1 else q);
          e' = (if m = 2 ^ 53 then e + 1 else e);
          m' = (if m = 2 ^ 53 then 2 ^ 52 else m)
      in if 971 < e' then None else Some (m', e'))"

text \<open>
  \<open>rounds_to m e v\<close>: the integer \<open>v\<close> lies in the rounding interval of the Number
  \<open>m \<times> 2\<^sup>e\<close>, that is, no farther from it than half the way to its neighbours (the lower
  neighbour of a power of two is half as far as the upper one); the ends of the interval
  belong to it when the mantissa is even.
\<close>

definition rounds_to :: "nat \<Rightarrow> nat \<Rightarrow> nat \<Rightarrow> bool" where
  "rounds_to m e v =
     (let x = m * 2 ^ e;
          below = (if m = 2 ^ 52 then 2 ^ (e - 1) else 2 ^ e);
          above = 2 ^ e
      in if even m then 2 * x \<le> 2 * v + below \<and> 2 * v \<le> 2 * x + above
         else 2 * x < 2 * v + below \<and> 2 * v < 2 * x + above)"

text \<open>
  The conversion prints the shortest digit string \<open>s\<close> for which \<open>s \<times> 10\<^bsup>n - k\<^esup>\<close> still
  reads back as the same Number, \<open>k\<close> being the number of digits of \<open>s\<close>; of several such
  \<open>s\<close> the one nearest to the Number, and of two equally near the even one.
  \<open>digits_of_length m e n k\<close> is that \<open>s\<close> for a given \<open>k\<close>, if there is one, where \<open>n\<close> is
  the number of decimal digits of \<open>m \<times> 2\<^sup>e\<close>: only the multiples of \<open>10\<^bsup>n - k\<^esup>\<close> just below
  and just above the Number can be nearest.
\<close>

definition digits_of_length :: "nat \<Rightarrow> nat \<Rightarrow> nat \<Rightarrow> nat \<Rightarrow> (nat \<times> nat) option" where
  "digits_of_length m e n k =
     (let x = m * 2 ^ e;
          p = 10 ^ (n - k);
          lo = x div p;
          hi = lo + 1
      in if rounds_to m e (lo * p) \<and> rounds_to m e (hi * p) then
           Some (if x - lo * p < hi * p - x \<or> (x - lo * p = hi * p - x \<and> even lo)
                 then lo else hi, k)
         else if rounds_to m e (lo * p) then Some (lo, k)
         else if rounds_to m e (hi * p) then Some (hi, k)
         else None)"

text \<open>
  The digits \<open>s\<close> and the position \<open>n\<close> of the decimal point (\<open>10\<^bsup>n - 1\<^esup> \<le> s \<times> 10\<^bsup>n - k\<^esup> < 10\<^sup>n\<close>).
  With all its own digits the Number is found at the latest; rounding up to a power of ten
  gives the single digit 1, one place higher.
\<close>

definition shortest_digits :: "nat \<Rightarrow> nat \<Rightarrow> nat \<times> nat" where
  "shortest_digits m e =
     (let x = m * 2 ^ e;
          n = length (show_nat x)
      in case List.map_filter (digits_of_length m e n) [1..<Suc n] of
           [] \<Rightarrow> (x, n)
         | (s, k) # _ \<Rightarrow> if s = 10 ^ k then (1, n + 1) else (s, n))"

text \<open>
  Up to 21 places the digits are followed by zeros; beyond, the exponent notation is
  used (\<open>1e+21\<close>, \<open>1.1805916207174113e+21\<close>).
\<close>

definition format_number :: "nat \<Rightarrow> nat \<Rightarrow> string" where
  "format_number s n =
     (let ds = show_nat s; k = length ds in
      if n \<le> 21 then ds @ replicate (n - k) CHR ''0''
      else if k = 1 then ds @ ''e+'' @ show_nat (n - 1)
      else hd ds # CHR ''.'' # tl ds @ ''e+'' @ show_nat (n - 1))"

definition Number_toString :: "nat \<Rightarrow> string" where
  "Number_toString a =
     (if a < 2 ^ 53 then show_nat a
      else case to_double a of
             None \<Rightarrow> ''Infinity''
           | Some (m, e) \<Rightarrow> (case shortest_digits m e of (s, n) \<Rightarrow> format_number s n))"

definition number_to_string :: "int \<Rightarrow> string" where
  "number_to_string i =
     (if i < 0 then CHR ''-'' # Number_toString (nat (- i)) else Number_toString (nat i))"

text \<open>
  \<open>new TextDecoder().decode(bytes)\<close>: the UTF-8 decoder of the platform, which is
  not fatal (a malformed sequence yields U+FFFD and the offending byte is looked at again
  as the start of a sequence) and drops one leading byte order mark. The decoder state
  is the code point under construction, the continuation bytes seen and needed, and the
  bounds for the next continuation byte.
\<close>

datatype utf8_state =
  U8 (code_point: nat) (bytes_seen: nat) (bytes_needed: nat) (lower_boundary: nat) (upper_boundary: nat)

definition utf8_initial :: utf8_state where
  "utf8_initial = U8 0 0 0 0x80 0xBF"

definition utf8_lead :: "nat \<Rightarrow> nat list \<times> utf8_state" where
  "utf8_lead n =
     (if n \<le> 0x7F then ([n], utf8_initial)
      else if 0xC2 \<le> n \<and> n \<le> 0xDF then ([], U8 (n mod 32) 0 1 0x80 0xBF)
      else if 0xE0 \<le> n \<and> n \<le> 0xEF then
        ([], U8 (n mod 16) 0 2 (if n = 0xE0 then 0xA0 else 0x80) (if n = 0xED then 0x9F else 0xBF))
      else if 0xF0 \<le> n \<and> n \<le> 0xF4 then
        ([], U8 (n mod 8) 0 3 (if n = 0xF0 then 0x90 else 0x80) (if n = 0xF4 then 0x8F else 0xBF))
      else ([0xFFFD], utf8_initial))"

fun utf8_decode :: "utf8_state \<Rightarrow> bytes \<Rightarrow> nat list" where
  "utf8_decode st [] = (if bytes_needed st \<noteq> 0 then [0xFFFD] else [])"
| "utf8_decode st (b # bs) =
     (if bytes_needed st = 0 then fst (utf8_lead (unat b)) @ utf8_decode (snd (utf8_lead (unat b))) bs
      else if unat b < lower_boundary st \<or> upper_boundary st < unat b then
        0xFFFD # fst (utf8_lead (unat b)) @ utf8_decode (snd (utf8_lead (unat b))) bs
      else if bytes_seen st + 1 \<noteq> bytes_needed st then
        utf8_decode (U8 (code_point st * 64 + unat b mod 64) (bytes_seen st + 1) (bytes_needed st) 0x80 0xBF) bs
      else (code_point st * 64 + unat b mod 64) # utf8_decode utf8_initial bs)"

definition utf16_units :: "nat \<Rightarrow> js_string" where
  "utf16_units c =
     (if c < 0x10000 then [of_nat c]
      else [of_nat (0xD800 + (c - 0x10000) div 1024), of_nat (0xDC00 + (c - 0x10000) mod 1024)])"

definition strip_bom :: "nat list \<Rightarrow> nat list" where
  "strip_bom cps = (case cps of [] \<Rightarrow> [] | c # rest \<Rightarrow> if c = 0xFEFF then rest else cps)"

definition TextDecoder_decode :: "bytes \<Rightarrow> js_string" where
  "TextDecoder_decode bs = concat (map utf16_units (strip_bom (utf8_decode utf8_initial bs)))"

text \<open>\<open>String.prototype.isWellFormed\<close>: no surrogate code unit outside a pair.\<close>

fun isWellFormed :: "js_string \<Rightarrow> bool" where
  "isWellFormed [] = True"
| "isWellFormed [c] = (\<not> is_high_surrogate c \<and> \<not> is_low_surrogate c)"
| "isWellFormed (c # d # cs) =
     (if is_high_surrogate c then is_low_surrogate d \<and> isWellFormed cs
      else \<not> is_low_surrogate c \<and> isWellFormed (d # cs))"

section \<open>The preset codec\<close>

text \<open>
  What the program throws, or a promise rejects with: an \<open>Error\<close> with its message, the
  \<open>RangeError\<close> and \<open>TypeError\<close> of the platform, or a value that is not an
  \<open>Error\<close> at all.
\<close>

datatype js_error = Error string | RangeError | TypeError | Non_error

record DevicePresetMetadata =
  slot :: nat
  name :: js_string
  timestamp :: nat
  isValid :: bool

definition MAX_SLOTS :: nat where
  "MAX_SLOTS = 8"

definition NAME_MAX_LENGTH :: nat where
  "NAME_MAX_LENGTH = 32"

definition EMPTY_SLOT_NAME :: js_string where
  "EMPTY_SLOT_NAME = js ''[Empty]''"

text \<open>\<open>target.set(source, offset)\<close> on typed arrays: out of bounds is a \<open>RangeError\<close>.\<close>

definition typed_array_set :: "bytes \<Rightarrow> bytes \<Rightarrow> nat \<Rightarrow> js_error + bytes" where
  "typed_array_set target source offset =
     (if offset + length source > length target then Inl RangeError
      else Inr (take offset target @ source @ drop (offset + length source) target))"

text \<open>
  \<open>encodePresetSave(slot, name)\<close>. The slot is an integer; storing it in a
  \<open>Uint8Array\<close> keeps its low eight bits. \<open>name.slice(0, 32)\<close> keeps the first 32
  code units of the name.
\<close>

definition encodePresetSave :: "int \<Rightarrow> js_string \<Rightarrow> js_error + bytes" where
  "encodePresetSave slot_no nm =
     (if slot_no < 0 \<or> slot_no \<ge> int MAX_SLOTS
      then Inl (Error (''Invalid slot: '' @ number_to_string slot_no))
      else
        let buffer = (replicate 33 0)[0 := of_int slot_no];
            nameBytes = TextEncoder_encode (take NAME_MAX_LENGTH nm)
        in typed_array_set buffer nameBytes 1)"

definition encodePresetLoad :: "int \<Rightarrow> js_error + bytes" where
  "encodePresetLoad slot_no =
     (if slot_no < 0 \<or> slot_no \<ge> int MAX_SLOTS
      then Inl (Error (''Invalid slot: '' @ number_to_string slot_no))
      else Inr [of_int slot_no])"

definition encodePresetDelete :: "int \<Rightarrow> js_error + bytes" where
  "encodePresetDelete slot_no =
     (if slot_no < 0 \<or> slot_no \<ge> int MAX_SLOTS
      then Inl (Error (''Invalid slot: '' @ number_to_string slot_no))
      else Inr [of_int slot_no])"

text \<open>
  A \<open>DataView\<close> is a window of \<open>byteLength\<close> bytes, starting at \<open>byteOffset\<close>, on an
  \<open>ArrayBuffer\<close>. Its getters are relative to the window and throw outside of it;
  \<open>new Uint8Array(data.buffer, offset, 32)\<close> is relative to the buffer.
\<close>

record DataView =
  buffer :: bytes
  byteOffset :: nat
  byteLength :: nat

definition DataView_of :: "bytes \<Rightarrow> DataView" where
  "DataView_of bs = \<lparr>buffer = bs, byteOffset = 0, byteLength = length bs\<rparr>"

definition getUint8 :: "DataView \<Rightarrow> nat \<Rightarrow> js_error + nat" where
  "getUint8 data off =
     (if off + 1 > byteLength data then Inl RangeError
      else Inr (unat (buffer data ! (byteOffset data + off))))"

definition getUint32_le :: "DataView \<Rightarrow> nat \<Rightarrow> js_error + nat" where
  "getUint32_le data off =
     (if off + 4 > byteLength data then Inl RangeError
      else Inr (unat (buffer data ! (byteOffset data + off))
              + 256 * unat (buffer data ! (byteOffset data + off + 1))
              + 65536 * unat (buffer data ! (byteOffset data + off + 2))
              + 16777216 * unat (buffer data ! (byteOffset data + off + 3))))"

definition Uint8Array_view :: "bytes \<Rightarrow> nat \<Rightarrow> nat \<Rightarrow> js_error + bytes" where
  "Uint8Array_view buf off len =
     (if off + len > length buf then Inl RangeError else Inr (take len (drop off buf)))"

fun indexOf :: "bytes \<Rightarrow> 8 word \<Rightarrow> nat option" where
  "indexOf [] x = None"
| "indexOf (y # ys) x = (if y = x then Some 0 else map_option Suc (indexOf ys x))"

text \<open>One turn of the loop of \<open>decodePresetList\<close>: the record of one slot.\<close>

definition decodePresetRecord :: "DataView \<Rightarrow> nat \<Rightarrow> js_error + DevicePresetMetadata" where
  "decodePresetRecord data slot_no =
     (let offset = slot_no * 40 in
      case Uint8Array_view (buffer data) offset 32 of
        Inl e \<Rightarrow> Inl e
      | Inr nameBytes \<Rightarrow>
          let nm = TextDecoder_decode
                     (case indexOf nameBytes 0 of Some nullIndex \<Rightarrow> take nullIndex nameBytes
                                                | None \<Rightarrow> nameBytes)
          in (case getUint32_le data (offset + 32) of
                Inl e \<Rightarrow> Inl e
              | Inr ts \<Rightarrow>
                  (case getUint8 data (offset + 36) of
                     Inl e \<Rightarrow> Inl e
                   | Inr v \<Rightarrow>
                       Inr \<lparr>slot = slot_no,
                            name = (if nm = [] then EMPTY_SLOT_NAME else nm),
                            timestamp = ts,
                            isValid = (v = 1)\<rparr>)))"

fun decodePresetSlots :: "DataView \<Rightarrow> nat list \<Rightarrow> js_error + DevicePresetMetadata list" where
  "decodePresetSlots data [] = Inr []"
| "decodePresetSlots data (slot_no # rest) =
     (case decodePresetRecord data slot_no of
        Inl e \<Rightarrow> Inl e
      | Inr m \<Rightarrow> (case decodePresetSlots data rest of
                    Inl e \<Rightarrow> Inl e
                  | Inr ms \<Rightarrow> Inr (m # ms)))"

definition decodePresetList :: "DataView \<Rightarrow> js_error + DevicePresetMetadata list" where
  "decodePresetList data = decodePresetSlots data [0..<MAX_SLOTS]"

text \<open>
  The frame the firmware answers a list request with, as the protocol lays it out: per
  slot 32 bytes of name (UTF-8, padded with zeros), the timestamp in four bytes,
  little-endian, one byte that is 1 for a valid slot and 0 otherwise, and three reserved
  bytes, whose content is free.
\<close>

definition le32 :: "nat \<Rightarrow> bytes" where
  "le32 n = [of_nat (n mod 256), of_nat (n div 256 mod 256),
             of_nat (n div 65536 mod 256), of_nat (n div 16777216 mod 256)]"

definition layoutPresetRecord :: "DevicePresetMetadata \<times> bytes \<Rightarrow> bytes" where
  "layoutPresetRecord r =
     (let nameBytes = TextEncoder_encode (name (fst r))
      in nameBytes @ replicate (32 - length nameBytes) 0
         @ le32 (timestamp (fst r)) @ [if isValid (fst r) then 1 else 0] @ snd r)"

definition layoutPresetList :: "(DevicePresetMetadata \<times> bytes) list \<Rightarrow> bytes" where
  "layoutPresetList rs = concat (map layoutPresetRecord rs)"

section \<open>Notions used to state the properties of the codec\<close>

text \<open>A Unicode scalar value: a code point that is not a surrogate.\<close>

definition is_scalar :: "nat \<Rightarrow> bool" where
  "is_scalar c \<longleftrightarrow> c < 0x110000 \<and> \<not> (0xD800 \<le> c \<and> c < 0xE000)"

text \<open>
  A preset record, with its three reserved bytes, as the firmware can store it: the name
  is well-formed text without a NUL and without a leading byte order mark, its UTF-8 form
  fits the 32 bytes of the name field, and the timestamp fits 32 bits.
\<close>

definition valid_preset_record :: "DevicePresetMetadata \<times> bytes \<Rightarrow> bool" where
  "valid_preset_record r \<longleftrightarrow>
     isWellFormed (name (fst r)) \<and> 0 \<notin> set (name (fst r))
     \<and> (name (fst r) = [] \<or> hd (name (fst r)) \<noteq> 0xFEFF)
     \<and> length (TextEncoder_encode (name (fst r))) \<le> 32
     \<and> timestamp (fst r) < 2 ^ 32
     \<and> length (snd r) = 3"

text \<open>What \<open>name || DEVICE_PRESET.EMPTY_SLOT_NAME\<close> makes of a record.\<close>

definition with_placeholder :: "DevicePresetMetadata \<Rightarrow> DevicePresetMetadata" where
  "with_placeholder m = m\<lparr>name := if name m = [] then EMPTY_SLOT_NAME else name m\<rparr>"

text \<open>
  Sample contents of the device: a slot that was never written, and three written ones
  (an ASCII name, a name that fills all 32 bytes, a name with characters of two, three
  and four bytes).
\<close>

definition empty_slot :: "nat \<Rightarrow> DevicePresetMetadata \<times> bytes" where
  "empty_slot k = (\<lparr>slot = k, name = [], timestamp = 0, isValid = False\<rparr>, [0, 0, 0])"

definition empty_slots :: "(DevicePresetMetadata \<times> bytes) list" where
  "empty_slots = [empty_slot 0, empty_slot 1, empty_slot 2, empty_slot 3, empty_slot 4,
                  empty_slot 5, empty_slot 6, empty_slot 7]"

definition lead_slot :: "DevicePresetMetadata \<times> bytes" where
  "lead_slot =
     (\<lparr>slot = 0, name = js ''Lead'', timestamp = 1700000000, isValid = True\<rparr>, [0, 0, 0])"

definition full_slot :: "DevicePresetMetadata \<times> bytes" where
  "full_slot =
     (\<lparr>slot = 1, name = js ''ABCDEFGHIJKLMNOPQRSTUVWXYZ012345'', timestamp = 4294967295,
       isValid = True\<rparr>, [1, 2, 3])"

definition unicode_slot :: "DevicePresetMetadata \<times> bytes" where
  "unicode_slot =
     (\<lparr>slot = 2, name = [0x42, 0xE9, 0x20AC, 0xD83D, 0xDE00], timestamp = 65536,
       isValid = True\<rparr>, [0, 0, 0])"

definition stored_slots :: "(DevicePresetMetadata \<times> bytes) list" where
  "stored_slots = [lead_slot, full_slot, unicode_slot, empty_slot 3, empty_slot 4, empty_slot 5,
                   empty_slot 6, empty_slot 7]"

text \<open>A name of seventeen times U+00E9: 17 code units, 34 bytes in UTF-8.\<close>

definition accented_name :: js_string where
  "accented_name = [0xE9, 0xE9, 0xE9, 0xE9, 0xE9, 0xE9, 0xE9, 0xE9, 0xE9, 0xE9, 0xE9, 0xE9,
                    0xE9, 0xE9, 0xE9, 0xE9, 0xE9]"

section \<open>The real-time control channel (\<open>midiBle\<close>)\<close>

text \<open>
  The module-level \<open>state\<close> object. Handles of the platform (device, GATT server,
  characteristic) are opaque numbers; \<open>undefined\<close> is \<open>None\<close>. Times are the
  readings of \<open>performance.now()\<close>, in milliseconds.
\<close>

record MidiBleState =
  midi_device :: "nat option"
  midi_server :: "nat option"
  midi_characteristic :: "nat option"
  lastSendMs :: real
  minIntervalMs :: real

definition midi_initial :: MidiBleState where
  "midi_initial = \<lparr>midi_device = None, midi_server = None, midi_characteristic = None,
     lastSendMs = 0, minIntervalMs = 8\<rparr>"

text \<open>The frame of one control change: the text \<open>cc,value\<close>, encoded.\<close>

definition cc_frame :: "int \<Rightarrow> int \<Rightarrow> bytes" where
  "cc_frame cc v = TextEncoder_encode (js (number_to_string cc @ '','' @ number_to_string v))"

text \<open>
  \<open>sendControlChange(cc, value)\<close>, called when the clock reads \<open>now\<close>; \<open>answer\<close>
  is what the transport answers to the write that the call may issue (\<open>None\<close> when it
  accepts it, the error otherwise). The result is how the promise settles, the state
  afterwards, and the frames handed to \<open>writeValueWithoutResponse\<close> by this call.
\<close>

definition sendControlChange ::
  "real \<Rightarrow> js_error option \<Rightarrow> int \<Rightarrow> int \<Rightarrow> MidiBleState
     \<Rightarrow> (js_error + unit) \<times> MidiBleState \<times> bytes list" where
  "sendControlChange now answer cc v s =
     (if now - lastSendMs s < minIntervalMs s then (Inr (), s, [])
      else
        let s' = s\<lparr>lastSendMs := now\<rparr> in
        (case midi_characteristic s' of
           None \<Rightarrow> (Inl (Error ''Not connected''), s', [])
         | Some ch \<Rightarrow>
             ((case answer of None \<Rightarrow> Inr () | Some e \<Rightarrow> Inl e), s', [cc_frame cc v])))"

text \<open>A successful \<open>connect()\<close> stores the three handles; \<open>disconnect()\<close> and the
  \<open>gattserverdisconnected\<close> listener clear them. Neither touches the rate limiter.\<close>

definition midi_connected :: "nat \<Rightarrow> nat \<Rightarrow> nat \<Rightarrow> MidiBleState \<Rightarrow> MidiBleState" where
  "midi_connected dev srv ch s =
     s\<lparr>midi_device := Some dev, midi_server := Some srv, midi_characteristic := Some ch\<rparr>"

definition midi_disconnect :: "MidiBleState \<Rightarrow> MidiBleState" where
  "midi_disconnect s =
     s\<lparr>midi_device := None, midi_server := None, midi_characteristic := None\<rparr>"

section \<open>The transport session (\<open>BLEClient\<close>)\<close>

text \<open>
  Handles of the platform (characteristics, the GATT server) and registered callbacks
  are opaque numbers. A \<open>BluetoothDevice\<close> carries its \<open>gatt\<close> server, which may be
  absent; of the server only the \<open>connected\<close> flag matters here.
\<close>

record BluetoothDevice =
  device_id :: nat
  gatt :: "bool option"  \<comment> \<open>\<open>device.gatt?.connected\<close>; \<open>None\<close> when \<open>device.gatt\<close> is undefined\<close>

record BLEConnectionStatus =
  connected :: bool
  status_device :: "BluetoothDevice option"  \<comment> \<open>the field \<open>device\<close> of the status\<close>
  error :: "string option"

record BLEClient =
  device :: "BluetoothDevice option"
  server :: "nat option"
  characteristic :: "nat option"
  onStatusChange :: "nat option"
  onDataReceived :: "nat option"
  presetSaveCharacteristic :: "nat option"
  presetLoadCharacteristic :: "nat option"
  presetListCharacteristic :: "nat option"
  presetDeleteCharacteristic :: "nat option"

text \<open>
  What a method does to the outside, in order: calls of the registered callbacks,
  listeners added and removed, and the calls into the Bluetooth stack that disconnect,
  write or read. The discovery calls of \<open>connect\<close> appear as the answers they get;
  console output is left out.
\<close>

datatype effect =
    Status_changed nat BLEConnectionStatus  \<comment> \<open>the status callback, called with a status\<close>
  | Data_received nat bytes  \<comment> \<open>the data callback, called with a value\<close>
  | Gatt_disconnect nat  \<comment> \<open>\<open>device.gatt.disconnect()\<close>\<close>
  | Listener_added nat  \<comment> \<open>\<open>addEventListener\<close> on a device or characteristic\<close>
  | Listener_removed nat  \<comment> \<open>\<open>removeEventListener\<close> on a characteristic\<close>
  | Write_value nat bytes  \<comment> \<open>\<open>writeValue(data)\<close> on a characteristic\<close>
  | Read_value nat  \<comment> \<open>\<open>readValue()\<close> on a characteristic\<close>

definition BLEClient_new :: BLEClient where
  "BLEClient_new =
     \<lparr>device = None, server = None, characteristic = None, onStatusChange = None,
      onDataReceived = None, presetSaveCharacteristic = None, presetLoadCharacteristic = None,
      presetListCharacteristic = None, presetDeleteCharacteristic = None\<rparr>"

definition setStatusChangeCallback :: "nat \<Rightarrow> BLEClient \<Rightarrow> BLEClient" where
  "setStatusChangeCallback callback s = s\<lparr>onStatusChange := Some callback\<rparr>"

definition setDataReceivedCallback :: "nat \<Rightarrow> BLEClient \<Rightarrow> BLEClient" where
  "setDataReceivedCallback callback s = s\<lparr>onDataReceived := Some callback\<rparr>"

definition notifyStatusChange :: "bool \<Rightarrow> string option \<Rightarrow> BLEClient \<Rightarrow> effect list" where
  "notifyStatusChange c err s =
     (case onStatusChange s of
        None \<Rightarrow> []
      | Some callback \<Rightarrow>
          [Status_changed callback \<lparr>connected = c, status_device = device s, error = err\<rparr>])"


definition cleanup :: "BLEClient \<Rightarrow> BLEClient \<times> effect list" where
  "cleanup s =
     (s\<lparr>characteristic := None, server := None\<rparr>,
      (case characteristic s of None \<Rightarrow> [] | Some ch \<Rightarrow> [Listener_removed ch]))"

text \<open>The listener for \<open>characteristicvaluechanged\<close>; \<open>value\<close> is \<open>characteristic.value\<close>.\<close>

definition onCharacteristicValueChanged :: "bytes option \<Rightarrow> BLEClient \<Rightarrow> effect list" where
  "onCharacteristicValueChanged value s =
     (case value of
        None \<Rightarrow> []
      | Some v \<Rightarrow> (case onDataReceived s of None \<Rightarrow> [] | Some callback \<Rightarrow> [Data_received callback v]))"

text \<open>The listener for \<open>gattserverdisconnected\<close>.\<close>

definition onDisconnected :: "BLEClient \<Rightarrow> BLEClient \<times> effect list" where
  "onDisconnected s =
     (let (s1, e1) = cleanup s in (s1, e1 @ notifyStatusChange False None s1))"

text \<open>
  While \<open>device.gatt.disconnect()\<close> runs, the platform may dispatch
  \<open>gattserverdisconnected\<close> to the listeners that earlier calls of \<open>connect\<close>
  registered; \<open>fired\<close> is the number of listeners it calls.
\<close>

primrec fire_disconnected :: "nat \<Rightarrow> BLEClient \<Rightarrow> BLEClient \<times> effect list" where
  "fire_disconnected 0 s = (s, [])"
| "fire_disconnected (Suc n) s =
     (let (s1, e1) = onDisconnected s; (s2, e2) = fire_disconnected n s1 in (s2, e1 @ e2))"

definition disconnect :: "nat \<Rightarrow> BLEClient \<Rightarrow> BLEClient \<times> effect list" where
  "disconnect fired s =
     (let (s1, e1) =
            (case device s of
               Some d \<Rightarrow>
                 (if gatt d = Some True then
                    (let (s', e') = fire_disconnected fired (s\<lparr>device := Some (d\<lparr>gatt := Some False\<rparr>)\<rparr>)
                     in (s', Gatt_disconnect (device_id d) # e'))
                  else (s, []))
             | None \<Rightarrow> (s, []));
          (s2, e2) = cleanup s1
      in (s2, e1 @ e2 @ notifyStatusChange False None s2))"

text \<open>
  A device that goes away by itself: the platform clears the \<open>connected\<close> flag and
  calls the listener.
\<close>

definition device_lost :: "BLEClient \<Rightarrow> BLEClient \<times> effect list" where
  "device_lost s =
     onDisconnected
       (case device s of
          None \<Rightarrow> s
        | Some d \<Rightarrow> s\<lparr>device := Some (d\<lparr>gatt := map_option (\<lambda>c. False) (gatt d)\<rparr>)\<rparr>)"

text \<open>
  What the Bluetooth stack answers during one \<open>connect()\<close>. A failure is the value the
  promise rejects with.
\<close>

record connect_env =
  bluetooth_available :: bool
  request_device :: "js_error + BluetoothDevice option"
  gatt_connect :: "js_error + nat"
  primary_service :: "js_error option"
  main_characteristic :: "js_error + nat"
  preset_save :: "nat option"
  preset_load :: "nat option"
  preset_list :: "nat option"
  preset_delete :: "nat option"
  start_notifications :: bool

text \<open>\<open>error instanceof Error ? error.message : 'Unknown error'\<close>; the text of the
  platform's own errors is not fixed by the language.\<close>

definition error_message :: "js_error \<Rightarrow> string" where
  "error_message e =
     (case e of Error m \<Rightarrow> m | RangeError \<Rightarrow> ''RangeError'' | TypeError \<Rightarrow> ''TypeError''
      | Non_error \<Rightarrow> ''Unknown error'')"

text \<open>The \<open>catch\<close> block of \<open>connect\<close>: report, then throw the error again.\<close>

definition connect_failed ::
  "js_error \<Rightarrow> BLEClient \<Rightarrow> effect list \<Rightarrow> (js_error + unit) \<times> BLEClient \<times> effect list" where
  "connect_failed e s es = (Inl e, s, es @ notifyStatusChange False (Some (error_message e)) s)"

text \<open>
  The discovery of the four preset characteristics, in one \<open>try\<close> block: the first
  one that is missing ends the block, and the fields after it keep what they held.
\<close>

definition discover_presets :: "connect_env \<Rightarrow> BLEClient \<Rightarrow> BLEClient" where
  "discover_presets env s =
     (case preset_save env of
        None \<Rightarrow> s
      | Some sv \<Rightarrow>
          (let s1 = s\<lparr>presetSaveCharacteristic := Some sv\<rparr> in
           case preset_load env of
             None \<Rightarrow> s1
           | Some ld \<Rightarrow>
               (let s2 = s1\<lparr>presetLoadCharacteristic := Some ld\<rparr> in
                case preset_list env of
                  None \<Rightarrow> s2
                | Some ls \<Rightarrow>
                    (let s3 = s2\<lparr>presetListCharacteristic := Some ls\<rparr> in
                     case preset_delete env of
                       None \<Rightarrow> s3
                     | Some dl \<Rightarrow> s3\<lparr>presetDeleteCharacteristic := Some dl\<rparr>))))"

definition connect ::
  "connect_env \<Rightarrow> BLEClient \<Rightarrow> (js_error + unit) \<times> BLEClient \<times> effect list" where
  "connect env s =
     (if \<not> bluetooth_available env then
        (Inl (Error ''Web Bluetooth is not supported in this browser''), s,
         notifyStatusChange False (Some ''Web Bluetooth is not supported in this browser'') s)
      else
        case request_device env of
          Inl e \<Rightarrow> connect_failed e s []
        | Inr None \<Rightarrow> connect_failed (Error ''No device selected'') (s\<lparr>device := None\<rparr>) []
        | Inr (Some d) \<Rightarrow>
            (let s1 = s\<lparr>device := Some d\<rparr>; e1 = [Listener_added (device_id d)] in
             case gatt d of
               None \<Rightarrow> connect_failed TypeError s1 e1
             | Some c \<Rightarrow>
                 (case gatt_connect env of
                    Inl e \<Rightarrow> connect_failed e s1 e1
                  | Inr srv \<Rightarrow>
                      (let s2 = s1\<lparr>device := Some (d\<lparr>gatt := Some True\<rparr>), server := Some srv\<rparr> in
                       case primary_service env of
                         Some e \<Rightarrow> connect_failed e s2 e1
                       | None \<Rightarrow>
                           (case main_characteristic env of
                              Inl e \<Rightarrow> connect_failed e s2 e1
                            | Inr ch \<Rightarrow>
                                (let s3 = discover_presets env (s2\<lparr>characteristic := Some ch\<rparr>);
                                     e3 = e1 @ (if start_notifications env
                                                then [Listener_added ch] else [])
                                 in (Inr (), s3, e3 @ notifyStatusChange True None s3)))))))"

text \<open>
  \<open>sendData\<close> and \<open>readData\<close> on the mandatory characteristic; the second argument
  is what the stack answers.
\<close>

definition sendData :: "bytes \<Rightarrow> js_error option \<Rightarrow> BLEClient \<Rightarrow> (js_error + unit) \<times> effect list" where
  "sendData data answer s =
     (case characteristic s of
        None \<Rightarrow> (Inl (Error ''Not connected to device''), [])
      | Some ch \<Rightarrow>
          (case answer of None \<Rightarrow> (Inr (), [Write_value ch data])
                        | Some e \<Rightarrow> (Inl e, [Write_value ch data])))"

definition readData :: "(js_error + DataView) \<Rightarrow> BLEClient \<Rightarrow> (js_error + DataView) \<times> effect list" where
  "readData answer s =
     (case characteristic s of
        None \<Rightarrow> (Inl (Error ''Not connected to device''), [])
      | Some ch \<Rightarrow> (answer, [Read_value ch]))"

text \<open>
  The four preset operations. Each takes what the stack answers to the one write or read
  it may issue; \<open>loadDevicePreset\<close> also takes the outcome and the effects of
  \<open>this.loadFromDevice()\<close>, a method of the client that the operation calls last.
\<close>

definition saveDevicePreset ::
  "int \<Rightarrow> js_string \<Rightarrow> js_error option \<Rightarrow> BLEClient \<Rightarrow> (js_error + unit) \<times> effect list" where
  "saveDevicePreset slot_no nm answer s =
     (case presetSaveCharacteristic s of
        None \<Rightarrow> (Inl (Error ''Device presets not supported''), [])
      | Some ch \<Rightarrow>
          (case encodePresetSave slot_no nm of
             Inl e \<Rightarrow> (Inl e, [])
           | Inr data \<Rightarrow>
               (case answer of None \<Rightarrow> (Inr (), [Write_value ch data])
                             | Some e \<Rightarrow> (Inl e, [Write_value ch data]))))"

definition loadDevicePreset ::
  "int \<Rightarrow> js_error option \<Rightarrow> (js_error + unit) \<times> effect list \<Rightarrow> BLEClient
     \<Rightarrow> (js_error + unit) \<times> effect list" where
  "loadDevicePreset slot_no answer loadFromDevice s =
     (case presetLoadCharacteristic s of
        None \<Rightarrow> (Inl (Error ''Device presets not supported''), [])
      | Some ch \<Rightarrow>
          (case encodePresetLoad slot_no of
             Inl e \<Rightarrow> (Inl e, [])
           | Inr data \<Rightarrow>
               (case answer of
                  Some e \<Rightarrow> (Inl e, [Write_value ch data])
                | None \<Rightarrow> (fst loadFromDevice, Write_value ch data # snd loadFromDevice))))"

definition listDevicePresets ::
  "(js_error + DataView) \<Rightarrow> BLEClient \<Rightarrow> (js_error + DevicePresetMetadata list) \<times> effect list" where
  "listDevicePresets answer s =
     (case presetListCharacteristic s of
        None \<Rightarrow> (Inl (Error ''Device presets not supported''), [])
      | Some ch \<Rightarrow>
          (case answer of
             Inl e \<Rightarrow> (Inl e, [Read_value ch])
           | Inr dataView \<Rightarrow> (decodePresetList dataView, [Read_value ch])))"

definition deleteDevicePreset ::
  "int \<Rightarrow> js_error option \<Rightarrow> BLEClient \<Rightarrow> (js_error + unit) \<times> effect list" where
  "deleteDevicePreset slot_no answer s =
     (case presetDeleteCharacteristic s of
        None \<Rightarrow> (Inl (Error ''Device presets not supported''), [])
      | Some ch \<Rightarrow>
          (case encodePresetDelete slot_no of
             Inl e \<Rightarrow> (Inl e, [])
           | Inr data \<Rightarrow>
               (case answer of None \<Rightarrow> (Inr (), [Write_value ch data])
                             | Some e \<Rightarrow> (Inl e, [Write_value ch data]))))"

definition hasDevicePresetSupport :: "BLEClient \<Rightarrow> bool" where
  "hasDevicePresetSupport s \<longleftrightarrow> presetSaveCharacteristic s \<noteq> None"

text \<open>The states a client can be in: what the methods and the platform make of a new one.\<close>

inductive reachable :: "BLEClient \<Rightarrow> bool" where
  new: "reachable BLEClient_new"
| status_callback: "reachable s \<Longrightarrow> reachable (setStatusChangeCallback callback s)"
| data_callback: "reachable s \<Longrightarrow> reachable (setDataReceivedCallback callback s)"
| connect: "reachable s \<Longrightarrow> reachable (fst (snd (connect env s)))"
| disconnect: "reachable s \<Longrightarrow> reachable (fst (disconnect fired s))"
| device_lost: "reachable s \<Longrightarrow> reachable (fst (device_lost s))"

text \<open>Two answers of the stack: a firmware without preset characteristics, and one with.\<close>

definition kb1_device :: BluetoothDevice where
  "kb1_device = \<lparr>device_id = 20, gatt = Some False\<rparr>"

definition old_firmware :: connect_env where
  "old_firmware =
     \<lparr>bluetooth_available = True, request_device = Inr (Some kb1_device),
      gatt_connect = Inr 21, primary_service = None, main_characteristic = Inr 22,
      preset_save = None, preset_load = None, preset_list = None, preset_delete = None,
      start_notifications = True\<rparr>"

definition new_firmware :: connect_env where
  "new_firmware =
     \<lparr>bluetooth_available = True, request_device = Inr (Some kb1_device),
      gatt_connect = Inr 21, primary_service = None, main_characteristic = Inr 22,
      preset_save = Some 23, preset_load = Some 24, preset_list = Some 25,
      preset_delete = Some 26, start_notifications = True\<rparr>"

section \<open>Notions used to state the properties of the transport session\<close>

text \<open>
  The preset characteristics are discovered in order, so a client without the first has
  none of them.
\<close>

definition preset_chain :: "BLEClient \<Rightarrow> bool" where
  "preset_chain s \<longleftrightarrow>
     (presetSaveCharacteristic s = None \<longrightarrow>
        presetLoadCharacteristic s = None \<and> presetListCharacteristic s = None
        \<and> presetDeleteCharacteristic s = None)"


text \<open>
  Two sessions: a client with a status callback, connected to a firmware without and
  with the preset characteristics.
\<close>

definition old_session :: BLEClient where
  "old_session = fst (snd (connect old_firmware (setStatusChangeCallback 30 BLEClient_new)))"

definition new_session :: BLEClient where
  "new_session = fst (snd (connect new_firmware (setStatusChangeCallback 30 BLEClient_new)))"

text \<open>
  A client that has had a session with the newer firmware, has called \<open>disconnect()\<close>,
  and is then connected to a device with the older firmware, on which the discovery of
  the preset characteristics fails.
\<close>

definition reconnect_to_old_firmware :: "(js_error + unit) \<times> BLEClient \<times> effect list" where
  "reconnect_to_old_firmware = connect old_firmware (fst (disconnect 1 new_session))"

definition downgraded_session :: BLEClient where
  "downgraded_session = fst (snd reconnect_to_old_firmware)"

section \<open>The keep-alive scheduler (\<open>KeepAliveService\<close>) and the activity tracker\<close>

text \<open>
  Times are readings of \<open>Date.now()\<close>, in milliseconds. Of the \<open>ActivityTracker\<close>
  the scheduler uses the time of the last activity and the tracking flag; user events
  reach \<open>updateActivity\<close> through a throttle, which decides when it runs, not what it
  does.
\<close>

record ActivityTracker =
  lastActivity :: int
  tracking :: bool  \<comment> \<open>the field \<open>isActive\<close> of the tracker\<close>
  throttleDelay :: int

definition ActivityTracker_new :: "int \<Rightarrow> int \<Rightarrow> ActivityTracker" where
  "ActivityTracker_new delay now = \<lparr>lastActivity = now, tracking = False, throttleDelay = delay\<rparr>"

definition tracker_start :: "int \<Rightarrow> ActivityTracker \<Rightarrow> ActivityTracker" where
  "tracker_start now t = (if tracking t then t else t\<lparr>tracking := True, lastActivity := now\<rparr>)"

definition tracker_stop :: "ActivityTracker \<Rightarrow> ActivityTracker" where
  "tracker_stop t = (if \<not> tracking t then t else t\<lparr>tracking := False\<rparr>)"

definition tracker_updateActivity :: "int \<Rightarrow> ActivityTracker \<Rightarrow> ActivityTracker" where
  "tracker_updateActivity now t = t\<lparr>lastActivity := now\<rparr>"

definition tracker_getTimeSinceActivity :: "int \<Rightarrow> ActivityTracker \<Rightarrow> int" where
  "tracker_getTimeSinceActivity now t = now - lastActivity t"

record KeepAliveConfig =
  config_pingInterval :: "int option"
  config_activityTimeout :: "int option"
  config_throttleDelay :: "int option"

record KeepAliveService =
  pingInterval :: "nat option"  \<comment> \<open>the handle of the running interval timer, or \<open>null\<close>\<close>
  activityTracker :: ActivityTracker
  sendPingCallback :: "nat option"
  isRunning :: bool
  PING_INTERVAL :: int
  ACTIVITY_TIMEOUT :: int

text \<open>What the scheduler does to the outside: the ping callback, the timers, the console.\<close>

datatype keepalive_effect =
    Ping_called nat
  | Interval_set nat int
  | Interval_cleared nat
  | Console_log string
  | Console_warn string
  | Console_error string

text \<open>How one call of the ping callback ends.\<close>

datatype ping_outcome = Resolves | Rejects js_error | Throws js_error

definition KeepAliveService_new :: "KeepAliveConfig \<Rightarrow> int \<Rightarrow> KeepAliveService" where
  "KeepAliveService_new config now =
     \<lparr>pingInterval = None,
      activityTracker =
        ActivityTracker_new (case config_throttleDelay config of None \<Rightarrow> 500 | Some d \<Rightarrow> d) now,
      sendPingCallback = None,
      isRunning = False,
      PING_INTERVAL = (case config_pingInterval config of None \<Rightarrow> 45000 | Some p \<Rightarrow> p),
      ACTIVITY_TIMEOUT = (case config_activityTimeout config of None \<Rightarrow> 120000 | Some a \<Rightarrow> a)\<rparr>"

definition setPingCallback :: "nat \<Rightarrow> KeepAliveService \<Rightarrow> KeepAliveService" where
  "setPingCallback callback s = s\<lparr>sendPingCallback := Some callback\<rparr>"

text \<open>\<open>startKeepAlive()\<close> at time \<open>now\<close>; \<open>timer\<close> is the handle \<open>setInterval\<close> returns.\<close>

definition startKeepAlive ::
  "int \<Rightarrow> nat \<Rightarrow> KeepAliveService \<Rightarrow> KeepAliveService \<times> keepalive_effect list" where
  "startKeepAlive now timer s =
     (if isRunning s then (s, [Console_log ''Keep-alive already running''])
      else if sendPingCallback s = None then
        (s, [Console_error ''Cannot start keep-alive: no ping callback set''])
      else
        (s\<lparr>isRunning := True,
           activityTracker := tracker_start now (activityTracker s),
           pingInterval := Some timer\<rparr>,
         [Interval_set timer (PING_INTERVAL s),
          Console_log ''Keep-alive started (ping every 45s, stop after 2min inactivity)'']))"

definition stopKeepAlive :: "KeepAliveService \<Rightarrow> KeepAliveService \<times> keepalive_effect list" where
  "stopKeepAlive s =
     (if \<not> isRunning s then (s, [])
      else
        (s\<lparr>isRunning := False, pingInterval := None,
           activityTracker := tracker_stop (activityTracker s)\<rparr>,
         (case pingInterval s of None \<Rightarrow> [] | Some timer \<Rightarrow> [Interval_cleared timer])
         @ [Console_log ''Keep-alive stopped'']))"

text \<open>An activity recorded by the tracker at time \<open>now\<close>.\<close>

definition activity :: "int \<Rightarrow> KeepAliveService \<Rightarrow> KeepAliveService" where
  "activity now s = s\<lparr>activityTracker := tracker_updateActivity now (activityTracker s)\<rparr>"

definition shouldSendPing :: "int \<Rightarrow> KeepAliveService \<Rightarrow> bool" where
  "shouldSendPing now s \<longleftrightarrow>
     tracker_getTimeSinceActivity now (activityTracker s) < ACTIVITY_TIMEOUT s"

text \<open>
  \<open>sendPing\<close> and \<open>checkAndSendPing\<close> are \<open>async\<close>: the first component of the
  result is how their promise settles. Neither assigns a field; the state is returned
  as it was.
\<close>

definition sendPing ::
  "ping_outcome \<Rightarrow> KeepAliveService \<Rightarrow> (js_error + unit) \<times> KeepAliveService \<times> keepalive_effect list" where
  "sendPing outcome s =
     (case sendPingCallback s of
        None \<Rightarrow> (Inr (), s, [Console_error ''No ping callback set''])
      | Some callback \<Rightarrow>
          (case outcome of
             Resolves \<Rightarrow> (Inr (), s, [Ping_called callback])
           | Rejects e \<Rightarrow>
               (Inr (), s, [Ping_called callback, Console_warn ''Keep-alive ping failed:''])
           | Throws e \<Rightarrow>
               (Inr (), s, [Ping_called callback, Console_warn ''Keep-alive ping failed:''])))"

definition checkAndSendPing ::
  "int \<Rightarrow> ping_outcome \<Rightarrow> KeepAliveService
     \<Rightarrow> (js_error + unit) \<times> KeepAliveService \<times> keepalive_effect list" where
  "checkAndSendPing now outcome s =
     (if \<not> shouldSendPing now s then
        (Inr (), s, [Console_log ''Skipping ping - no recent activity''])
      else sendPing outcome s)"

definition KeepAlive_isActive :: "KeepAliveService \<Rightarrow> bool" where
  "KeepAlive_isActive s = isRunning s"

text \<open>
  The states of a scheduler: a new one, and what its methods, the tracker and the ticks
  of its timer make of it. The timer ticks only for a handle that is set.
\<close>

inductive scheduled :: "KeepAliveService \<Rightarrow> bool" where
  created: "scheduled (KeepAliveService_new config now)"
| callback_set: "scheduled s \<Longrightarrow> scheduled (setPingCallback callback s)"
| started: "scheduled s \<Longrightarrow> scheduled (fst (startKeepAlive now timer s))"
| stopped: "scheduled s \<Longrightarrow> scheduled (fst (stopKeepAlive s))"
| active: "scheduled s \<Longrightarrow> scheduled (activity now s)"
| ticked: "scheduled s \<Longrightarrow> pingInterval s \<noteq> None \<Longrightarrow>
     scheduled (fst (snd (checkAndSendPing now outcome s)))"

text \<open>A scheduler with the default configuration, started at time 0 with callback 40.\<close>

definition default_scheduler :: KeepAliveService where
  "default_scheduler =
     fst (startKeepAlive 0 41
       (setPingCallback 40
         (KeepAliveService_new
           \<lparr>config_pingInterval = None, config_activityTimeout = None,
            config_throttleDelay = None\<rparr> 0)))"

section \<open>Properties of the text codec\<close>

lemma to_scalar_values_ascii:
  "\<forall>c\<in>set s. unat c < 0x80 \<Longrightarrow> to_scalar_values s = map unat s"
  by (induction s rule: to_scalar_values.induct)
    (auto simp: is_high_surrogate_def is_low_surrogate_def)

lemma unat_js_char: "unat (of_nat (of_char c) :: 16 word) = of_char c"
proof -
  have "of_char c < (256::nat)" by simp
  then have "of_char c < (65536::nat)" by (rule less_trans) simp
  then show ?thesis by (simp add: unat_of_nat)
qed

lemma map_unat_js: "map unat (js t) = map of_char t"
  by (simp add: js_def unat_js_char)

lemma utf8_bytes_ascii: "cp < 0x80 \<Longrightarrow> utf8_bytes cp = [of_nat cp]"
  by (simp add: utf8_bytes_def)

lemma TextEncoder_encode_js_ascii:
  assumes "\<forall>c\<in>set t. of_char c < (0x80::nat)"
  shows "TextEncoder_encode (js t) = map (\<lambda>c. of_nat (of_char c)) t"
proof -
  have "\<forall>w\<in>set (js t). unat w < 0x80"
  proof
    fix w assume "w \<in> set (js t)"
    then have "unat w \<in> set (map unat (js t))" by simp
    then have "unat w \<in> set (map of_char t)" by (simp only: map_unat_js)
    with assms show "unat w < 0x80" by auto
  qed
  then have "to_scalar_values (js t) = map of_char t"
    by (simp add: to_scalar_values_ascii map_unat_js)
  moreover have "concat (map utf8_bytes (map of_char t)) = map (\<lambda>c. of_nat (of_char c)) t"
    using assms by (induction t) (simp_all add: utf8_bytes_ascii)
  ultimately show ?thesis by (simp add: TextEncoder_encode_def)
qed

lemma unat_byte: "x < 256 \<Longrightarrow> unat (of_nat x :: 8 word) = x"
  by (simp add: unat_of_nat)

lemma mod32_lead: "h < 32 \<Longrightarrow> (192 + h) mod 32 = (h::nat)"
  using mod_mult_self4 [of 32 6 h] by simp

lemma mod16_lead: "h < 16 \<Longrightarrow> (224 + h) mod 16 = (h::nat)"
  using mod_mult_self4 [of 16 14 h] by simp

lemma mod8_lead: "h < 8 \<Longrightarrow> (240 + h) mod 8 = (h::nat)"
  using mod_mult_self4 [of 8 30 h] by simp

lemma mod64_cont: "l < 64 \<Longrightarrow> (128 + l) mod 64 = (l::nat)"
  using mod_mult_self4 [of 64 2 l] by simp

lemma utf8_decode_initial:
  "utf8_decode utf8_initial (b # bs)
     = fst (utf8_lead (unat b)) @ utf8_decode (snd (utf8_lead (unat b))) bs"
  by (simp add: utf8_initial_def)

lemma utf8_decode_continue:
  assumes "l < 64" "lo \<le> 128 + l" "128 + l \<le> hi" "0 < n"
  shows "utf8_decode (U8 c k n lo hi) (of_nat (128 + l) # bs)
     = (if k + 1 \<noteq> n then utf8_decode (U8 (c * 64 + l) (k + 1) n 0x80 0xBF) bs
        else (c * 64 + l) # utf8_decode utf8_initial bs)"
proof -
  have u: "unat (of_nat (128 + l) :: 8 word) = 128 + l"
    using assms by (intro unat_byte) simp
  show ?thesis
    using assms by (simp add: u mod64_cont del: of_nat_add)
qed

lemma decode_two:
  assumes "2 \<le> h" "h < 32" "l < 64"
  shows "utf8_decode utf8_initial (of_nat (192 + h) # of_nat (128 + l) # rest)
     = (h * 64 + l) # utf8_decode utf8_initial rest"
proof -
  have u: "unat (of_nat (192 + h) :: 8 word) = 192 + h"
    using assms by (intro unat_byte) simp
  have l1: "utf8_lead (192 + h) = ([], U8 h 0 1 0x80 0xBF)"
    using assms by (simp add: utf8_lead_def mod32_lead)
  show ?thesis
    using assms by (simp add: utf8_decode_initial u l1 utf8_decode_continue del: of_nat_add utf8_decode.simps)
qed

lemma decode_three:
  assumes "a < 16" "b < 64" "l < 64" "a = 0 \<longrightarrow> 32 \<le> b" "a = 13 \<longrightarrow> b < 32"
  shows "utf8_decode utf8_initial (of_nat (224 + a) # of_nat (128 + b) # of_nat (128 + l) # rest)
     = ((a * 64 + b) * 64 + l) # utf8_decode utf8_initial rest"
proof -
  have u: "unat (of_nat (224 + a) :: 8 word) = 224 + a"
    using assms by (intro unat_byte) simp
  have l1: "utf8_lead (224 + a)
      = ([], U8 a 0 2 (if a = 0 then 0xA0 else 0x80) (if a = 13 then 0x9F else 0xBF))"
    using assms by (simp add: utf8_lead_def mod16_lead)
  have lo: "(if a = 0 then 0xA0 else 0x80) \<le> 128 + b" using assms by simp
  have hi: "128 + b \<le> (if a = 13 then 0x9F else 0xBF)" using assms by auto
  show ?thesis
    using assms(2,3) lo hi
    by (simp add: utf8_decode_initial u l1 utf8_decode_continue del: of_nat_add utf8_decode.simps)
qed

lemma decode_four:
  assumes "a < 5" "b < 64" "c < 64" "l < 64" "a = 0 \<longrightarrow> 16 \<le> b" "a = 4 \<longrightarrow> b < 16"
  shows "utf8_decode utf8_initial
           (of_nat (240 + a) # of_nat (128 + b) # of_nat (128 + c) # of_nat (128 + l) # rest)
     = (((a * 64 + b) * 64 + c) * 64 + l) # utf8_decode utf8_initial rest"
proof -
  have u: "unat (of_nat (240 + a) :: 8 word) = 240 + a"
    using assms by (intro unat_byte) simp
  have l1: "utf8_lead (240 + a)
      = ([], U8 a 0 3 (if a = 0 then 0x90 else 0x80) (if a = 4 then 0x8F else 0xBF))"
    using assms by (simp add: utf8_lead_def mod8_lead)
  have lo: "(if a = 0 then 0x90 else 0x80) \<le> 128 + b" using assms by simp
  have hi: "128 + b \<le> (if a = 4 then 0x8F else 0xBF)" using assms by auto
  show ?thesis
    using assms(2,3,4) lo hi
    by (simp add: utf8_decode_initial u l1 utf8_decode_continue del: of_nat_add utf8_decode.simps)
qed

lemma div4096: "c div 4096 = c div 64 div (64::nat)"
  by (simp add: div_mult2_eq)

lemma digits3: "((c div 4096) * 64 + c div 64 mod 64) * 64 + c mod 64 = (c::nat)"
  by (simp add: div4096)

lemma digits4:
  "(((c div 262144) * 64 + c div 4096 mod 64) * 64 + c div 64 mod 64) * 64 + c mod 64 = (c::nat)"
proof -
  have a: "c div 262144 = (c div 64) div 4096" by (simp add: div_mult2_eq)
  have b: "c div 4096 = c div 64 div 64" by (simp add: div_mult2_eq)
  have "((c div 64 div 4096) * 64 + (c div 64) div 64 mod 64) * 64 + (c div 64) mod 64 = c div 64"
    by (rule digits3)
  then have "((c div 262144) * 64 + c div 4096 mod 64) * 64 + c div 64 mod 64 = c div 64"
    by (simp only: a b)
  then show ?thesis by (simp only: div_mult_mod_eq)
qed

lemma utf8_decode_bytes:
  assumes "is_scalar c"
  shows "utf8_decode utf8_initial (utf8_bytes c @ rest) = c # utf8_decode utf8_initial rest"
proof -
  consider "c < 0x80" | "0x80 \<le> c" "c < 0x800" | "0x800 \<le> c" "c < 0x10000"
    | "0x10000 \<le> c" "c < 0x110000"
    using assms unfolding is_scalar_def by linarith
  then show ?thesis
  proof cases
    case 1
    then show ?thesis
      by (simp add: utf8_bytes_def utf8_decode_initial utf8_lead_def unat_byte
          del: utf8_decode.simps)
  next
    case 2
    then have "utf8_decode utf8_initial (of_nat (192 + c div 64) # of_nat (128 + c mod 64) # rest)
        = (c div 64 * 64 + c mod 64) # utf8_decode utf8_initial rest"
      by (intro decode_two) simp_all
    then have "utf8_decode utf8_initial (of_nat (192 + c div 64) # of_nat (128 + c mod 64) # rest)
        = c # utf8_decode utf8_initial rest"
      by (simp only: div_mult_mod_eq)
    with 2 show ?thesis by (simp add: utf8_bytes_def del: of_nat_add utf8_decode.simps)
  next
    case 3
    have s: "c div 4096 = 13 \<longrightarrow> c div 64 mod 64 < 32"
    proof
      assume h: "c div 4096 = 13"
      have "c < 0xD800" using assms 3 h by (auto simp: is_scalar_def)
      then have q: "c div 64 < 864" by simp
      from h have h': "c div 64 div 64 = 13" by (simp add: div4096)
      have "13 * 64 + c div 64 mod 64 = c div 64"
        using div_mult_mod_eq [of "c div 64" 64] by (simp only: h')
      with q show "c div 64 mod 64 < 32" by linarith
    qed
    have "utf8_decode utf8_initial
           (of_nat (224 + c div 4096) # of_nat (128 + c div 64 mod 64) # of_nat (128 + c mod 64) # rest)
        = ((c div 4096 * 64 + c div 64 mod 64) * 64 + c mod 64) # utf8_decode utf8_initial rest"
    proof (intro decode_three)
      have t: "32 \<le> c div 64" using 3 by simp
      show "c div 4096 = 0 \<longrightarrow> 32 \<le> c div 64 mod 64"
        using t by (simp add: div4096)
    qed (use 3 s in simp_all)
    then have "utf8_decode utf8_initial
           (of_nat (224 + c div 4096) # of_nat (128 + c div 64 mod 64) # of_nat (128 + c mod 64) # rest)
        = c # utf8_decode utf8_initial rest"
      by (simp only: digits3)
    with 3 show ?thesis
      by (simp add: utf8_bytes_def del: of_nat_add utf8_decode.simps)
  next
    case 4
    have "utf8_decode utf8_initial
           (of_nat (240 + c div 262144) # of_nat (128 + c div 4096 mod 64)
            # of_nat (128 + c div 64 mod 64) # of_nat (128 + c mod 64) # rest)
        = (((c div 262144 * 64 + c div 4096 mod 64) * 64 + c div 64 mod 64) * 64 + c mod 64)
          # utf8_decode utf8_initial rest"
    proof (intro decode_four)
      have d: "c div 262144 = c div 4096 div 64" by (simp add: div_mult2_eq)
      have t: "16 \<le> c div 4096" "c div 4096 < 272" using 4 by simp_all
      show "c div 262144 = 0 \<longrightarrow> 16 \<le> c div 4096 mod 64"
        using t by (simp add: d)
      show "c div 262144 = 4 \<longrightarrow> c div 4096 mod 64 < 16"
      proof
        assume "c div 262144 = 4"
        then have h': "c div 4096 div 64 = 4" by (simp only: d)
        have "4 * 64 + c div 4096 mod 64 = c div 4096"
          using div_mult_mod_eq [of "c div 4096" 64] by (simp only: h')
        with t show "c div 4096 mod 64 < 16" by linarith
      qed
    qed (use 4 in simp_all)
    then have "utf8_decode utf8_initial
           (of_nat (240 + c div 262144) # of_nat (128 + c div 4096 mod 64)
            # of_nat (128 + c div 64 mod 64) # of_nat (128 + c mod 64) # rest)
        = c # utf8_decode utf8_initial rest"
      by (simp only: digits4)
    with 4 show ?thesis
      by (simp add: utf8_bytes_def del: of_nat_add utf8_decode.simps)
  qed
qed

lemma unat_unit_bound: "unat (c :: 16 word) < 65536"
  using unsigned_less [of c, where ?'a = nat] by simp

lemma to_scalar_values_scalar: "\<forall>c\<in>set (to_scalar_values s). is_scalar c"
proof (induction s rule: to_scalar_values.induct)
  case 1
  then show ?case by simp
next
  case (2 c)
  then show ?case using unat_unit_bound [of c]
    by (auto simp: is_scalar_def is_high_surrogate_def is_low_surrogate_def)
next
  case (3 c d cs)
  have p: "is_scalar (code_point_of_pair c d)" if "is_high_surrogate c" "is_low_surrogate d"
    using that unfolding is_scalar_def code_point_of_pair_def is_high_surrogate_def
      is_low_surrogate_def by linarith
  have q: "is_scalar (unat c)" if "\<not> is_high_surrogate c" "\<not> is_low_surrogate c"
    using that unat_unit_bound [of c] unfolding is_scalar_def is_high_surrogate_def
      is_low_surrogate_def by linarith
  have r: "is_scalar 0xFFFD" by (simp add: is_scalar_def)
  show ?case using 3 p q r by simp
qed

lemma utf8_decode_concat:
  "\<forall>c\<in>set cs. is_scalar c \<Longrightarrow> utf8_decode utf8_initial (concat (map utf8_bytes cs)) = cs"
proof (induction cs)
  case Nil
  then show ?case by (simp add: utf8_initial_def)
next
  case (Cons c cs)
  then show ?case by (simp add: utf8_decode_bytes del: utf8_decode.simps)
qed

lemma utf16_units_pair:
  assumes "is_high_surrogate c" "is_low_surrogate d"
  shows "utf16_units (code_point_of_pair c d) = [c, d]"
proof -
  define h where "h = unat c - 0xD800"
  define l where "l = unat d - 0xDC00"
  have hl: "h < 1024" "l < 1024" "unat c = 0xD800 + h" "unat d = 0xDC00 + l"
    using assms unfolding h_def l_def is_high_surrogate_def is_low_surrogate_def
    by linarith+
  have dv: "(h * 1024 + l) div 1024 = h" "(h * 1024 + l) mod 1024 = l"
    using hl by simp_all
  have "utf16_units (0x10000 + h * 1024 + l)
      = [of_nat (0xD800 + h), of_nat (0xDC00 + l)]"
    using dv by (simp add: utf16_units_def del: of_nat_add)
  also have "\<dots> = [of_nat (unat c), of_nat (unat d)]"
    by (simp only: hl)
  finally show ?thesis by (simp add: h_def l_def code_point_of_pair_def)
qed

lemma utf16_units_bmp: "utf16_units (unat (c :: 16 word)) = [c]"
  using unat_unit_bound [of c] by (simp add: utf16_units_def)

lemma utf16_of_scalar_values:
  "isWellFormed s \<Longrightarrow> concat (map utf16_units (to_scalar_values s)) = s"
  by (induction s rule: to_scalar_values.induct)
    (simp_all add: utf16_units_bmp utf16_units_pair)

lemma strip_bom_scalar_values:
  assumes "isWellFormed s" "s = [] \<or> hd s \<noteq> 0xFEFF"
  shows "strip_bom (to_scalar_values s) = to_scalar_values s"
proof (cases s rule: to_scalar_values.cases)
  case 1
  then show ?thesis by (simp add: strip_bom_def)
next
  case (2 c)
  with assms have "unat c \<noteq> unat (0xFEFF :: 16 word)" by (simp add: word_unat_eq_iff)
  then have "unat c \<noteq> 0xFEFF" by simp
  with 2 assms show ?thesis by (simp add: strip_bom_def)
next
  case (3 c d cs)
  with assms have "unat c \<noteq> unat (0xFEFF :: 16 word)" by (simp add: word_unat_eq_iff)
  then have u: "unat c \<noteq> 0xFEFF" by simp
  have "code_point_of_pair c d \<noteq> 0xFEFF" by (simp add: code_point_of_pair_def)
  with 3 assms u show ?thesis by (simp add: strip_bom_def)
qed

lemma TextDecoder_TextEncoder:
  assumes "isWellFormed s" "s = [] \<or> hd s \<noteq> 0xFEFF"
  shows "TextDecoder_decode (TextEncoder_encode s) = s"
  using assms
  by (simp add: TextDecoder_decode_def TextEncoder_encode_def utf8_decode_concat
      to_scalar_values_scalar strip_bom_scalar_values utf16_of_scalar_values)

lemma byte_nonzero: "0 < x \<Longrightarrow> x < 256 \<Longrightarrow> (of_nat x :: 8 word) \<noteq> 0"
proof
  assume x: "0 < x" "x < 256" and z: "(of_nat x :: 8 word) = 0"
  from z have "unat (of_nat x :: 8 word) = 0" by simp
  with x show False by (simp only: unat_byte)
qed

lemma utf8_bytes_nonzero:
  assumes "0 < c" "c < 0x110000"
  shows "0 \<notin> set (utf8_bytes c)"
proof -
  have b: "c div 262144 < 5" using assms by simp
  have n1: "c < 0x80 \<Longrightarrow> (of_nat c :: 8 word) \<noteq> 0"
    using assms by (intro byte_nonzero) simp_all
  have n2: "c < 0x800 \<Longrightarrow> (of_nat (192 + c div 64) :: 8 word) \<noteq> 0"
    by (intro byte_nonzero) simp_all
  have n3: "c < 0x10000 \<Longrightarrow> (of_nat (224 + c div 4096) :: 8 word) \<noteq> 0"
    by (intro byte_nonzero) simp_all
  have n4: "(of_nat (240 + c div 262144) :: 8 word) \<noteq> 0"
    using b by (intro byte_nonzero) simp_all
  have k: "(of_nat (128 + x mod 64) :: 8 word) \<noteq> 0" for x :: nat
  proof (intro byte_nonzero)
    have "x mod 64 < 64" by simp
    then show "128 + x mod 64 < 256" by linarith
  qed simp
  show ?thesis
    unfolding utf8_bytes_def using n1 n2 n3 n4 k
    by (auto simp del: of_nat_add of_nat_numeral)
qed

lemma to_scalar_values_pos:
  "0 \<notin> set s \<Longrightarrow> \<forall>c\<in>set (to_scalar_values s). 0 < c"
proof (induction s rule: to_scalar_values.induct)
  case 1
  then show ?case by simp
next
  case (2 c)
  then show ?case by (simp add: unat_gt_0)
next
  case (3 c d cs)
  have "0 < code_point_of_pair c d" by (simp add: code_point_of_pair_def)
  with 3 show ?case by (simp add: unat_gt_0)
qed

lemma TextEncoder_encode_nonzero:
  assumes "0 \<notin> set s"
  shows "0 \<notin> set (TextEncoder_encode s)"
proof -
  have "0 \<notin> set (utf8_bytes c)" if "c \<in> set (to_scalar_values s)" for c
    using that to_scalar_values_pos [OF assms] to_scalar_values_scalar [of s]
    by (intro utf8_bytes_nonzero) (auto simp: is_scalar_def)
  then show ?thesis by (auto simp: TextEncoder_encode_def)
qed

section \<open>Properties of the preset codec\<close>

lemma indexOf_takeWhile:
  "(case indexOf xs x of Some i \<Rightarrow> take i xs | None \<Rightarrow> xs) = takeWhile (\<lambda>y. y \<noteq> x) xs"
  by (induction xs) (auto split: option.splits)

lemma takeWhile_padded:
  "0 \<notin> set nb \<Longrightarrow> takeWhile (\<lambda>y. y \<noteq> 0) (nb @ replicate k (0 :: 8 word)) = nb"
  by (induction nb) (auto simp: takeWhile_replicate)

lemma le32_sum:
  assumes "n < 2 ^ 32"
  shows "n mod 256 + 256 * (n div 256 mod 256) + 65536 * (n div 65536 mod 256)
         + 16777216 * (n div 16777216 mod 256) = (n::nat)"
proof -
  have a: "n div 65536 = n div 256 div 256" by (simp add: div_mult2_eq)
  have b: "n div 16777216 = n div 256 div 256 div 256" by (simp add: div_mult2_eq)
  have c: "n div 256 div 256 div 256 < 256" using assms by (simp add: div_mult2_eq)
  have "n = 256 * (n div 256) + n mod 256" by simp
  moreover have "n div 256 = 256 * (n div 256 div 256) + n div 256 mod 256" by simp
  moreover have "n div 256 div 256 = 256 * (n div 256 div 256 div 256) + n div 256 div 256 mod 256"
    by simp
  ultimately show ?thesis unfolding a b using c by (simp only: mod_less)
qed

lemma length_layoutPresetRecord:
  "valid_preset_record r \<Longrightarrow> length (layoutPresetRecord r) = 40"
  by (simp add: layoutPresetRecord_def valid_preset_record_def le32_def Let_def)

lemma drop_layoutPresetList:
  assumes "\<forall>r\<in>set rs. valid_preset_record r" "i < length rs"
  shows "drop (i * 40) (layoutPresetList rs)
     = layoutPresetRecord (rs ! i) @ layoutPresetList (drop (Suc i) rs)"
  using assms
proof (induction rs arbitrary: i)
  case Nil
  then show ?case by simp
next
  case (Cons r rs)
  show ?case
  proof (cases i)
    case 0
    then show ?thesis by (simp add: layoutPresetList_def)
  next
    case (Suc j)
    with Cons.prems have j: "j < length rs" and v: "\<forall>r\<in>set rs. valid_preset_record r"
      and l: "length (layoutPresetRecord r) = 40"
      by (simp_all add: length_layoutPresetRecord)
    have "drop (i * 40) (layoutPresetList (r # rs)) = drop (j * 40) (layoutPresetList rs)"
      using Suc l by (simp add: layoutPresetList_def)
    with Cons.IH [OF v j] Suc show ?thesis by simp
  qed
qed

lemma length_layoutPresetList:
  "\<forall>r\<in>set rs. valid_preset_record r \<Longrightarrow> length (layoutPresetList rs) = 40 * length rs"
  by (induction rs) (simp_all add: layoutPresetList_def length_layoutPresetRecord)

lemma decodePresetSlots_all:
  "\<forall>k\<in>set ks. decodePresetRecord data k = Inr (f k) \<Longrightarrow>
   decodePresetSlots data ks = Inr (map f ks)"
  by (induction ks) simp_all

lemma decodePresetRecord_layout:
  assumes v: "\<forall>r\<in>set rs. valid_preset_record r" and i: "i < length rs"
  shows "decodePresetRecord (DataView_of (layoutPresetList rs)) i
     = Inr ((with_placeholder (fst (rs ! i)))\<lparr>slot := i\<rparr>)"
proof -
  define frame where "frame = layoutPresetList rs"
  define m where "m = fst (rs ! i)"
  define nb where "nb = TextEncoder_encode (name m)"
  define field where "field = nb @ replicate (32 - length nb) 0"
  define valid :: "8 word" where "valid = (if isValid m then 1 else 0)"
  define tail where "tail = le32 (timestamp m) @ [valid] @ snd (rs ! i)"
  define more where "more = layoutPresetList (drop (Suc i) rs)"
  have r: "valid_preset_record (rs ! i)" using v i by simp
  have len: "length frame = 40 * length rs"
    unfolding frame_def using v by (rule length_layoutPresetList)
  have d: "drop (i * 40) frame = field @ tail @ more"
    using drop_layoutPresetList [OF v i]
    by (simp add: layoutPresetRecord_def Let_def frame_def field_def tail_def more_def
        nb_def m_def valid_def)
  have fl: "length field = 32"
    using r by (simp add: valid_preset_record_def field_def nb_def m_def)
  have view: "Uint8Array_view frame (i * 40) 32 = Inr field"
    using i len fl by (simp add: Uint8Array_view_def d)
  have nm: "TextDecoder_decode (takeWhile (\<lambda>y. y \<noteq> 0) field) = name m"
    using r unfolding field_def nb_def m_def
    by (simp add: valid_preset_record_def takeWhile_padded TextEncoder_encode_nonzero
        TextDecoder_TextEncoder)
  have nth: "frame ! (i * 40 + 32 + k) = (tail @ more) ! k" for k
  proof -
    have "i * 40 \<le> length frame" using i len by simp
    then have "frame ! (i * 40 + (32 + k)) = drop (i * 40) frame ! (32 + k)"
      by simp
    also have "\<dots> = (tail @ more) ! k"
      unfolding d using fl by (simp add: nth_append)
    finally show ?thesis by (simp add: add.assoc)
  qed
  have t: "tail @ more
      = of_nat (timestamp m mod 256) # of_nat (timestamp m div 256 mod 256)
        # of_nat (timestamp m div 65536 mod 256) # of_nat (timestamp m div 16777216 mod 256)
        # valid # snd (rs ! i) @ more"
    by (simp add: tail_def le32_def)
  have ts: "getUint32_le (DataView_of frame) (i * 40 + 32) = Inr (timestamp m)"
  proof -
    have b: "i * 40 + 32 + 4 \<le> length frame" using i len by simp
    have n0: "frame ! (i * 40 + 32) = of_nat (timestamp m mod 256)"
      using nth [of 0] by (simp add: t)
    have n1: "frame ! (33 + i * 40) = of_nat (timestamp m div 256 mod 256)"
      using nth [of 1] by (simp add: t)
    have n2: "frame ! (34 + i * 40) = of_nat (timestamp m div 65536 mod 256)"
      using nth [of 2] by (simp add: t)
    have n3: "frame ! (35 + i * 40) = of_nat (timestamp m div 16777216 mod 256)"
      using nth [of 3] by (simp add: t)
    have lt: "timestamp m < 2 ^ 32" using r by (simp add: valid_preset_record_def m_def)
    then have top: "timestamp m div 16777216 < 256" by simp
    from le32_sum [OF lt] b top show ?thesis
      unfolding getUint32_le_def DataView_of_def
      by (simp add: n0 n1 n2 n3 unat_byte)
  qed
  have vb: "getUint8 (DataView_of frame) (i * 40 + 36) = Inr (unat valid)"
  proof -
    have b: "i * 40 + 36 + 1 \<le> length frame" using i len by simp
    have "frame ! (i * 40 + 36) = valid"
      using nth [of 4] by (simp add: t add.commute)
    with b show ?thesis
      unfolding getUint8_def DataView_of_def by simp
  qed
  have bf: "buffer (DataView_of frame) = frame" by (simp add: DataView_of_def)
  have "decodePresetRecord (DataView_of frame) i = Inr ((with_placeholder m)\<lparr>slot := i\<rparr>)"
    unfolding decodePresetRecord_def Let_def
    by (simp add: bf view indexOf_takeWhile nm ts vb with_placeholder_def valid_def)
  then show ?thesis by (simp add: frame_def m_def)
qed

lemma decodePresetList_of_layout:
  assumes n: "length rs = MAX_SLOTS"
    and v: "\<forall>r\<in>set rs. valid_preset_record r"
  shows "decodePresetList (DataView_of (layoutPresetList rs))
     = Inr (map (\<lambda>i. (with_placeholder (fst (rs ! i)))\<lparr>slot := i\<rparr>) [0..<MAX_SLOTS])"
  unfolding decodePresetList_def
  by (rule decodePresetSlots_all) (use n v in \<open>simp add: decodePresetRecord_layout\<close>)

lemma isWellFormed_no_surrogates:
  "\<forall>c\<in>set s. \<not> is_high_surrogate c \<and> \<not> is_low_surrogate c \<Longrightarrow> isWellFormed s"
  by (induction s rule: isWellFormed.induct) simp_all

lemma js_ascii_units:
  assumes "\<forall>c\<in>set t. of_char c < (0x80::nat)" "w \<in> set (js t)"
  shows "unat w < 0x80"
proof -
  from assms(2) have "unat w \<in> set (map unat (js t))" by simp
  then have "unat w \<in> set (map of_char t)" by (simp only: map_unat_js)
  with assms(1) show ?thesis by auto
qed

lemma valid_ascii_record:
  assumes a: "\<forall>c\<in>set t. of_char c < (0x80::nat) \<and> of_char c \<noteq> (0::nat)"
    and l: "length t \<le> 32" and ts: "n < 2 ^ 32" and rl: "length rsv = 3"
  shows "valid_preset_record (\<lparr>slot = k, name = js t, timestamp = n, isValid = b\<rparr>, rsv)"
proof -
  have u: "unat w < 0x80" if "w \<in> set (js t)" for w
    using a that by (intro js_ascii_units [of t]) auto
  have wf: "isWellFormed (js t)"
    by (rule isWellFormed_no_surrogates)
      (use u in \<open>fastforce simp: is_high_surrogate_def is_low_surrogate_def\<close>)
  have z: "0 \<notin> set (js t)"
  proof
    assume "0 \<in> set (js t)"
    then obtain c where c: "c \<in> set t" "(of_nat (of_char c) :: 16 word) = 0"
      by (auto simp: js_def)
    from c(2) have "unat (of_nat (of_char c) :: 16 word) = 0" by simp
    then have "of_char c = (0::nat)" by (simp only: unat_js_char)
    with a c(1) show False by auto
  qed
  have bom: "js t = [] \<or> hd (js t) \<noteq> 0xFEFF"
  proof (cases t)
    case Nil
    then show ?thesis by (simp add: js_def)
  next
    case (Cons c cs)
    then have "hd (js t) \<in> set (js t)" by (simp add: js_def)
    from u [OF this] have "unat (hd (js t)) \<noteq> unat (0xFEFF :: 16 word)" by simp
    then show ?thesis by auto
  qed
  have len: "length (TextEncoder_encode (js t)) \<le> 32"
    using a l by (subst TextEncoder_encode_js_ascii) auto
  show ?thesis
    using wf z bom len ts rl by (simp add: valid_preset_record_def)
qed

lemma valid_lead_slot: "valid_preset_record lead_slot"
  unfolding lead_slot_def by (rule valid_ascii_record) simp_all

lemma valid_full_slot: "valid_preset_record full_slot"
  unfolding full_slot_def by (rule valid_ascii_record) simp_all

lemma valid_empty_slot: "valid_preset_record (empty_slot k)"
  by (simp add: empty_slot_def valid_preset_record_def TextEncoder_encode_def)

lemma valid_unicode_slot: "valid_preset_record unicode_slot"
proof -
  have e: "TextEncoder_encode [0x42, 0xE9, 0x20AC, 0xD83D, 0xDE00]
      = [0x42, 0xC3, 0xA9, 0xE2, 0x82, 0xAC, 0xF0, 0x9F, 0x98, 0x80]"
    by (simp add: TextEncoder_encode_def is_high_surrogate_def is_low_surrogate_def
        utf8_bytes_def code_point_of_pair_def)
  have w: "isWellFormed [0x42, 0xE9, 0x20AC, 0xD83D, 0xDE00]"
    by (simp add: is_high_surrogate_def is_low_surrogate_def)
  show ?thesis
    using w by (simp add: unicode_slot_def valid_preset_record_def e
        is_high_surrogate_def is_low_surrogate_def)
qed

lemma valid_stored_slots: "\<forall>r\<in>set stored_slots. valid_preset_record r"
  by (simp add: stored_slots_def valid_lead_slot valid_full_slot valid_unicode_slot
      valid_empty_slot)

lemma valid_empty_slots: "\<forall>r\<in>set empty_slots. valid_preset_record r"
  by (simp add: empty_slots_def valid_empty_slot)

text \<open>
  Against claim C2 as stated: the codec itself replaces an empty name. The frame of eight
  never-written slots (320 zero bytes) does not decode to the eight records it was laid
  out from: every decoded name is the placeholder \<open>[Empty]\<close>, not the empty string.
\<close>

theorem decodePresetList_empty_name_counterexample:
  "decodePresetList (DataView_of (layoutPresetList empty_slots)) \<noteq> Inr (map fst empty_slots)"
proof -
  have "length empty_slots = MAX_SLOTS" by (simp add: empty_slots_def MAX_SLOTS_def)
  from decodePresetList_of_layout [OF this valid_empty_slots]
  show ?thesis
    by (simp add: MAX_SLOTS_def empty_slots_def empty_slot_def with_placeholder_def
        EMPTY_SLOT_NAME_def js_def upt_conv_Cons)
qed

text \<open>
  Claim C2, as far as the code carries it. For eight valid records laid out in one
  320-byte frame, read through a \<open>DataView\<close> on the whole buffer, \<open>decodePresetList\<close>
  returns the eight records in order, slot, timestamp and validity flag exactly, and the
  name exactly when it is not empty (this includes a name that fills all 32 bytes and
  leaves no terminator); an empty name comes back as \<open>EMPTY_SLOT_NAME\<close>, put there by
  the codec.
\<close>

theorem decodePresetList_layout:
  assumes n: "length rs = MAX_SLOTS"
    and v: "\<forall>r\<in>set rs. valid_preset_record r"
    and s: "\<forall>i<MAX_SLOTS. slot (fst (rs ! i)) = i"
  shows "decodePresetList (DataView_of (layoutPresetList rs))
     = Inr (map (\<lambda>r. (fst r)\<lparr>name := if name (fst r) = [] then EMPTY_SLOT_NAME
                                     else name (fst r)\<rparr>) rs)"
proof -
  let ?g = "\<lambda>r. (fst r)\<lparr>name := if name (fst r) = [] then EMPTY_SLOT_NAME else name (fst r)\<rparr>"
  have "map (\<lambda>i. (with_placeholder (fst (rs ! i)))\<lparr>slot := i\<rparr>) [0..<MAX_SLOTS]
      = map (\<lambda>i. ?g (rs ! i)) [0..<length rs]"
    using s n by (simp add: with_placeholder_def)
  also have "\<dots> = map ?g (map (\<lambda>i. rs ! i) [0..<length rs])"
    by (simp only: map_map comp_def)
  also have "\<dots> = map ?g rs"
    by (simp only: map_nth)
  finally show ?thesis
    using decodePresetList_of_layout [OF n v] by simp
qed

theorem decodePresetList_layout_witness:
  "decodePresetList (DataView_of (layoutPresetList stored_slots))
     = Inr [\<lparr>slot = 0, name = js ''Lead'', timestamp = 1700000000, isValid = True\<rparr>,
            \<lparr>slot = 1, name = js ''ABCDEFGHIJKLMNOPQRSTUVWXYZ012345'', timestamp = 4294967295,
              isValid = True\<rparr>,
            \<lparr>slot = 2, name = [0x42, 0xE9, 0x20AC, 0xD83D, 0xDE00], timestamp = 65536,
              isValid = True\<rparr>,
            \<lparr>slot = 3, name = js ''[Empty]'', timestamp = 0, isValid = False\<rparr>,
            \<lparr>slot = 4, name = js ''[Empty]'', timestamp = 0, isValid = False\<rparr>,
            \<lparr>slot = 5, name = js ''[Empty]'', timestamp = 0, isValid = False\<rparr>,
            \<lparr>slot = 6, name = js ''[Empty]'', timestamp = 0, isValid = False\<rparr>,
            \<lparr>slot = 7, name = js ''[Empty]'', timestamp = 0, isValid = False\<rparr>]"
proof -
  have n: "length stored_slots = MAX_SLOTS"
    by (simp add: stored_slots_def MAX_SLOTS_def)
  have m: "MAX_SLOTS = Suc (Suc (Suc (Suc (Suc (Suc (Suc (Suc 0)))))))"
    by (simp add: MAX_SLOTS_def)
  have s: "\<forall>i<MAX_SLOTS. slot (fst (stored_slots ! i)) = i"
    unfolding m stored_slots_def lead_slot_def full_slot_def unicode_slot_def empty_slot_def
    by (simp add: All_less_Suc)
  have j: "js ''Lead'' \<noteq> []" "js ''ABCDEFGHIJKLMNOPQRSTUVWXYZ012345'' \<noteq> []"
    by (simp_all add: js_def)
  show ?thesis
    using decodePresetList_layout [OF n valid_stored_slots s]
    by (simp add: stored_slots_def lead_slot_def full_slot_def unicode_slot_def empty_slot_def
        EMPTY_SLOT_NAME_def j)
qed

text \<open>
  When the kept part of the name fits, \<open>encodePresetSave\<close> builds the 33-byte frame:
  the slot, the UTF-8 bytes of the name, zeros up to the end.
\<close>

lemma encodePresetSave_fits:
  assumes "0 \<le> slot_no" "slot_no \<le> 7"
    and "length (TextEncoder_encode (take 32 nm)) \<le> 32"
  shows "encodePresetSave slot_no nm
     = Inr (of_int slot_no # TextEncoder_encode (take 32 nm)
            @ replicate (32 - length (TextEncoder_encode (take 32 nm))) 0)"
proof -
  have r: "(replicate 33 (0 :: 8 word))[0 := of_int slot_no] = of_int slot_no # replicate 32 0"
    by (simp add: numeral_eq_Suc)
  show ?thesis
    using assms
    by (simp add: encodePresetSave_def MAX_SLOTS_def NAME_MAX_LENGTH_def Let_def
        typed_array_set_def r)
qed

lemma take_js: "take n (js t) = js (take n t)"
  by (simp add: js_def take_map)

lemma encodePresetSave_long_ascii_name:
  "encodePresetSave 3 (js ''A very long preset name exceeding thirty two characters'')
     = Inr (3 # map (\<lambda>c. of_nat (of_char c)) ''A very long preset name exceedin'')"
proof -
  have e: "TextEncoder_encode (js ''A very long preset name exceedin'')
      = map (\<lambda>c. of_nat (of_char c)) ''A very long preset name exceedin''"
    by (rule TextEncoder_encode_js_ascii) simp
  have t: "take 32 (js ''A very long preset name exceeding thirty two characters'')
      = js ''A very long preset name exceedin''"
    by (simp add: take_js)
  have "encodePresetSave 3 (js ''A very long preset name exceeding thirty two characters'')
      = Inr (of_int 3 # TextEncoder_encode (js ''A very long preset name exceedin'')
             @ replicate (32 - length (TextEncoder_encode (js ''A very long preset name exceedin''))) 0)"
    unfolding t [symmetric] by (rule encodePresetSave_fits) (simp_all add: t e)
  then show ?thesis by (simp add: e)
qed

lemma encodePresetSave_Test:
  "encodePresetSave 0 (js ''Test'') = Inr (0 # [0x54, 0x65, 0x73, 0x74] @ replicate 28 0)"
proof -
  have e: "TextEncoder_encode (js ''Test'') = map (\<lambda>c. of_nat (of_char c)) ''Test''"
    by (rule TextEncoder_encode_js_ascii) simp
  have t: "take 32 (js ''Test'') = js ''Test''"
    by (simp add: take_js)
  have "encodePresetSave 0 (js ''Test'')
      = Inr (of_int 0 # TextEncoder_encode (take 32 (js ''Test''))
             @ replicate (32 - length (TextEncoder_encode (take 32 (js ''Test'')))) 0)"
    by (rule encodePresetSave_fits) (simp_all add: t e)
  then show ?thesis by (simp add: t e)
qed

lemma TextEncoder_encode_accented_name:
  "TextEncoder_encode accented_name
     = [0xC3, 0xA9, 0xC3, 0xA9, 0xC3, 0xA9, 0xC3, 0xA9, 0xC3, 0xA9, 0xC3, 0xA9, 0xC3, 0xA9,
        0xC3, 0xA9, 0xC3, 0xA9, 0xC3, 0xA9, 0xC3, 0xA9, 0xC3, 0xA9, 0xC3, 0xA9, 0xC3, 0xA9,
        0xC3, 0xA9, 0xC3, 0xA9, 0xC3, 0xA9]"
  by (simp add: accented_name_def TextEncoder_encode_def utf8_bytes_def
      is_high_surrogate_def is_low_surrogate_def)

text \<open>
  Claim C1 fails on the code. \<open>name.slice(0, 32)\<close> cuts the name at 32 code units,
  not at 32 bytes: a name of seventeen times U+00E9 is kept whole, encodes to 34 bytes,
  and \<open>buffer.set(nameBytes, 1)\<close> throws a \<open>RangeError\<close> instead of truncating.
\<close>

theorem encodePresetSave_multibyte_name_throws:
  "encodePresetSave 0 accented_name = Inl RangeError"
proof -
  have t: "take NAME_MAX_LENGTH accented_name = accented_name"
    by (simp add: NAME_MAX_LENGTH_def accented_name_def)
  show ?thesis
    by (simp add: encodePresetSave_def MAX_SLOTS_def Let_def typed_array_set_def t
        TextEncoder_encode_accented_name)
qed

text \<open>
  Claim C6. A slot outside 0..7 makes each of the three encoders throw the error
  \<open>Invalid slot: n\<close>, whatever the name, and no frame is produced; for a slot in 0..7,
  \<open>encodePresetLoad\<close> and \<open>encodePresetDelete\<close> return the one byte whose value is
  the slot.
\<close>

theorem preset_slot_validation:
  "(slot_no < 0 \<or> 7 < slot_no \<longrightarrow>
      encodePresetSave slot_no nm = Inl (Error (''Invalid slot: '' @ number_to_string slot_no))
      \<and> encodePresetLoad slot_no = Inl (Error (''Invalid slot: '' @ number_to_string slot_no))
      \<and> encodePresetDelete slot_no = Inl (Error (''Invalid slot: '' @ number_to_string slot_no)))
   \<and> (0 \<le> slot_no \<and> slot_no \<le> 7 \<longrightarrow>
      encodePresetLoad slot_no = Inr [of_int slot_no]
      \<and> encodePresetDelete slot_no = Inr [of_int slot_no]
      \<and> uint (of_int slot_no :: 8 word) = slot_no)"
proof -
  have "uint (of_int slot_no :: 8 word) = slot_no" if "0 \<le> slot_no" "slot_no \<le> 7"
    using that by (simp add: uint_word_of_int)
  then show ?thesis
    by (auto simp: encodePresetSave_def encodePresetLoad_def encodePresetDelete_def MAX_SLOTS_def)
qed

theorem preset_slot_validation_witness:
  "encodePresetSave 8 (js ''Test'') = Inl (Error ''Invalid slot: 8'')
   \<and> encodePresetLoad 8 = Inl (Error ''Invalid slot: 8'')
   \<and> encodePresetDelete (- 1) = Inl (Error ''Invalid slot: -1'')
   \<and> encodePresetLoad 3 = Inr [3]
   \<and> encodePresetDelete 7 = Inr [7]"
proof -
  have n: "number_to_string 8 = ''8''" "number_to_string (- 1) = ''-1''"
    by (simp_all add: number_to_string_def Number_toString_def show_nat.simps digit_char_def)
  show ?thesis
    using preset_slot_validation [of 8 "js ''Test''"] preset_slot_validation [of "- 1" "[]"]
      preset_slot_validation [of 3 "[]"] preset_slot_validation [of 7 "[]"]
    by (simp add: n)
qed

section \<open>Properties of the control channel\<close>

lemma digit_char_ascii: "k < 10 \<Longrightarrow> of_char (digit_char k) < (0x80::nat)"
proof -
  assume "k < 10"
  then have "k \<in> {0,1,2,3,4,5,6,7,8,9}" by auto
  then show ?thesis by (auto simp: digit_char_def)
qed

lemma show_nat_ascii: "\<forall>c\<in>set (show_nat n). of_char c < (0x80::nat)"
proof (induction n rule: show_nat.induct)
  case (1 n)
  show ?case
  proof (cases "n < 10")
    case True
    then show ?thesis by (subst show_nat.simps) (simp add: digit_char_ascii)
  next
    case False
    then have "show_nat n = show_nat (n div 10) @ [digit_char (n mod 10)]"
      by (subst show_nat.simps) simp
    then show ?thesis using "1.IH" [OF False] by (simp add: digit_char_ascii)
  qed
qed

lemma show_nat_not_Nil: "show_nat n \<noteq> []"
  by (subst show_nat.simps) simp

lemma format_number_ascii: "\<forall>c\<in>set (format_number s n). of_char c < (0x80::nat)"
proof -
  have h: "of_char (hd (show_nat s)) < (0x80::nat)"
    using show_nat_ascii [of s] show_nat_not_Nil [of s] by (simp add: hd_in_set)
  have t: "\<forall>c\<in>set (tl (show_nat s)). of_char c < (0x80::nat)"
    using show_nat_ascii [of s] show_nat_not_Nil [of s] by (auto dest: list.set_sel(2))
  show ?thesis
    using show_nat_ascii [of s] show_nat_ascii [of "n - 1"] h t
    by (auto simp: format_number_def Let_def)
qed

lemma Number_toString_ascii: "\<forall>c\<in>set (Number_toString a). of_char c < (0x80::nat)"
  using show_nat_ascii [of a] format_number_ascii
  by (auto simp: Number_toString_def split: option.split prod.split)

lemma number_to_string_ascii: "\<forall>c\<in>set (number_to_string i). of_char c < (0x80::nat)"
  using Number_toString_ascii by (simp add: number_to_string_def)

lemma number_to_string_small:
  "0 \<le> i \<Longrightarrow> i < 2 ^ 53 \<Longrightarrow> number_to_string i = show_nat (nat i)"
  by (simp add: number_to_string_def Number_toString_def nat_less_iff)

text \<open>
  Beyond \<open>2\<^sup>5\<^sup>3\<close> the conversion prints the shortest digits that identify the Number, and
  from \<open>10\<^sup>2\<^sup>1\<close> on it uses the exponent notation: \<open>String(2 ** 64)\<close> is
  \<open>18446744073709552000\<close> and \<open>String(1e21)\<close> is \<open>1e+21\<close>.
\<close>

lemma show_nat_1: "show_nat (Suc 0) = ''1''"
  by (subst show_nat.simps) (simp add: digit_char_def)

lemma shortest_digits_one_digit:
  assumes "digits_of_length m e (length (show_nat (m * 2 ^ e))) 1 = Some (s, k)"
  shows "shortest_digits m e
         = (if s = 10 ^ k then (1, length (show_nat (m * 2 ^ e)) + 1)
            else (s, length (show_nat (m * 2 ^ e))))"
proof -
  have "0 < length (show_nat (m * 2 ^ e))"
    using show_nat_not_Nil by simp
  then have "[1..<Suc (length (show_nat (m * 2 ^ e)))]
             = 1 # [Suc 1..<Suc (length (show_nat (m * 2 ^ e)))]"
    by (intro upt_conv_Cons) simp
  then show ?thesis
    using assms by (simp add: shortest_digits_def Let_def List.map_filter_simps del: upt_Suc)
qed

lemma number_to_string_1e21: "number_to_string 1000000000000000000000 = ''1e+21''"
proof -
  have b: "bit_length 1000000000000000000000 = 70"
    by (simp add: bit_length.simps)
  have t: "to_double 1000000000000000000000 = Some (7629394531250000, 17)"
    by (simp add: to_double_def b Let_def)
  have x: "7629394531250000 * 2 ^ 17 = (1000000000000000000000::nat)"
    by simp
  have n: "length (show_nat (7629394531250000 * 2 ^ 17)) = 22"
    unfolding x by (simp add: show_nat.simps)
  have d: "digits_of_length 7629394531250000 17 22 1 = Some (1, 1)"
    by (simp add: digits_of_length_def rounds_to_def Let_def)
  have s: "shortest_digits 7629394531250000 17 = (Suc 0, 22)"
    using shortest_digits_one_digit [of 7629394531250000 17 1 1] d by (simp only: n) simp
  have f: "format_number (Suc 0) 22 = ''1e+21''"
    unfolding format_number_def Let_def show_nat_1 by (simp add: show_nat.simps digit_char_def)
  show ?thesis
    by (simp add: number_to_string_def Number_toString_def t s f)
qed

lemma number_to_string_2_64:
  "number_to_string 18446744073709551616 = ''18446744073709552000''"
proof -
  have b: "bit_length 18446744073709551616 = 65"
    by (simp add: bit_length.simps)
  have t: "to_double 18446744073709551616 = Some (4503599627370496, 12)"
    by (simp add: to_double_def b Let_def)
  have x: "4503599627370496 * 2 ^ 12 = (18446744073709551616::nat)"
    by simp
  have n: "length (show_nat 18446744073709551616) = 20"
    by (simp add: show_nat.simps)
  have d: "List.map_filter (digits_of_length 4503599627370496 12 20) [1..<Suc 20]
           = [(18446744073709552, 17), (184467440737095516, 18), (1844674407370955162, 19),
              (18446744073709551616, 20)]"
    by (simp add: digits_of_length_def rounds_to_def Let_def List.map_filter_simps upt_rec)
  have s: "shortest_digits 4503599627370496 12 = (18446744073709552, 20)"
    by (simp only: shortest_digits_def Let_def x n d) simp
  have f: "format_number 18446744073709552 20 = ''18446744073709552000''"
  proof -
    have ds: "show_nat 18446744073709552 = ''18446744073709552''"
      by (simp add: show_nat.simps digit_char_def)
    show ?thesis
      unfolding format_number_def Let_def ds by (simp add: numeral_3_eq_3)
  qed
  show ?thesis
    by (simp add: number_to_string_def Number_toString_def t s f)
qed

lemma cc_frame_ascii:
  "cc_frame cc v = map (\<lambda>c. of_nat (of_char c)) (number_to_string cc @ '','' @ number_to_string v)"
  unfolding cc_frame_def
  by (rule TextEncoder_encode_js_ascii) (use number_to_string_ascii in auto)

lemma cc_frame_7_64: "cc_frame 7 64 = [0x37, 0x2C, 0x36, 0x34]"
  by (simp add: cc_frame_ascii number_to_string_small show_nat.simps digit_char_def)

text \<open>
  Against claim C4 as stated: the window is not counted from the last successful send.
  From the initial state, a call at 100 ms without a characteristic throws and writes
  nothing, so no send has succeeded yet; a characteristic is then connected, and the call
  at 105 ms is dropped all the same.
\<close>

theorem sendControlChange_after_failure_counterexample:
  "snd (snd (sendControlChange 100 None 7 64 midi_initial)) = []
   \<and> fst (sendControlChange 100 None 7 64 midi_initial) = Inl (Error ''Not connected'')
   \<and> sendControlChange 105 None 7 64
         (midi_connected 10 11 12 (fst (snd (sendControlChange 100 None 7 64 midi_initial))))
       = (Inr (), midi_connected 10 11 12 (midi_initial\<lparr>lastSendMs := 100\<rparr>), [])"
  by (simp add: sendControlChange_def midi_initial_def midi_connected_def)

text \<open>
  Claim C4, as far as the code carries it. The window of the rate limiter is counted
  from \<open>lastSendMs\<close>, the time of the last call that got past the limiter, whether or
  not that call wrote anything. A call inside the window returns silently: no write, no
  change of state. A call outside the window, with a characteristic connected, hands
  exactly one frame to the transport, the ASCII text \<open>cc,value\<close>, and restarts the
  window; a second call \<open>d\<close> milliseconds later writes if and only if \<open>d\<close> is at
  least the minimum interval.
\<close>

theorem sendControlChange_rate_limit:
  "(now - lastSendMs s < minIntervalMs s \<longrightarrow>
      sendControlChange now answer cc v s = (Inr (), s, []))
   \<and> (minIntervalMs s \<le> now - lastSendMs s \<and> midi_characteristic s = Some ch \<longrightarrow>
      snd (snd (sendControlChange now answer cc v s)) = [cc_frame cc v]
      \<and> fst (snd (sendControlChange now answer cc v s)) = s\<lparr>lastSendMs := now\<rparr>
      \<and> snd (snd (sendControlChange (now + d) answer' cc v (s\<lparr>lastSendMs := now\<rparr>)))
          = (if d < minIntervalMs s then [] else [cc_frame cc v]))
   \<and> cc_frame cc v
       = map (\<lambda>c. of_nat (of_char c)) (number_to_string cc @ '','' @ number_to_string v)"
proof (intro conjI impI)
  show "cc_frame cc v
       = map (\<lambda>c. of_nat (of_char c)) (number_to_string cc @ '','' @ number_to_string v)"
    by (rule cc_frame_ascii)
qed (auto simp: sendControlChange_def)

theorem sendControlChange_rate_limit_witness:
  "sendControlChange 105 None 7 64 ((midi_connected 10 11 12 midi_initial)\<lparr>lastSendMs := 100\<rparr>)
     = (Inr (), (midi_connected 10 11 12 midi_initial)\<lparr>lastSendMs := 100\<rparr>, [])
   \<and> snd (snd (sendControlChange 100 None 7 64 (midi_connected 10 11 12 midi_initial)))
     = [[0x37, 0x2C, 0x36, 0x34]]
   \<and> snd (snd (sendControlChange (100 + 5) None 7 64
        ((midi_connected 10 11 12 midi_initial)\<lparr>lastSendMs := 100\<rparr>))) = []
   \<and> snd (snd (sendControlChange (100 + 10) None 7 64
        ((midi_connected 10 11 12 midi_initial)\<lparr>lastSendMs := 100\<rparr>))) = [[0x37, 0x2C, 0x36, 0x34]]"
proof -
  let ?s = "midi_connected 10 11 12 midi_initial"
  have c: "midi_characteristic ?s = Some 12"
    by (simp add: midi_connected_def)
  have i: "minIntervalMs ?s = 8" "lastSendMs ?s = 0"
    by (simp_all add: midi_connected_def midi_initial_def)
  have i': "minIntervalMs (?s\<lparr>lastSendMs := 100\<rparr>) = 8" "lastSendMs (?s\<lparr>lastSendMs := 100\<rparr>) = 100"
    by (simp_all add: midi_connected_def midi_initial_def)
  have "sendControlChange 105 None 7 64 (?s\<lparr>lastSendMs := 100\<rparr>)
     = (Inr (), ?s\<lparr>lastSendMs := 100\<rparr>, [])"
    using sendControlChange_rate_limit
      [where s = "?s\<lparr>lastSendMs := 100\<rparr>" and now = 105 and answer = None and cc = 7 and v = 64
         and answer' = None and ch = 12 and d = 0]
    by (simp add: i)
  moreover have "snd (snd (sendControlChange 100 None 7 64 ?s)) = [[0x37, 0x2C, 0x36, 0x34]]
     \<and> snd (snd (sendControlChange (100 + 5) None 7 64 (?s\<lparr>lastSendMs := 100\<rparr>))) = []"
    using sendControlChange_rate_limit
      [where s = ?s and now = 100 and answer = None and answer' = None and cc = 7 and v = 64
         and ch = 12 and d = 5] c
    by (simp add: i cc_frame_7_64)
  moreover have "snd (snd (sendControlChange (100 + 10) None 7 64 (?s\<lparr>lastSendMs := 100\<rparr>)))
      = [[0x37, 0x2C, 0x36, 0x34]]"
    using sendControlChange_rate_limit
      [where s = ?s and now = 100 and answer = None and answer' = None and cc = 7 and v = 64
         and ch = 12 and d = 10] c
    by (simp add: i cc_frame_7_64)
  ultimately show ?thesis by blast
qed

text \<open>
  Claim C10. When no characteristic is connected and the rate limiter lets the call
  through, \<open>sendControlChange\<close> first moves \<open>lastSendMs\<close> to the time of the call
  and then throws \<open>Not connected\<close>. The window is therefore counted from that failed
  attempt: every call within the following interval is dropped, without a write and
  without an error, also when a characteristic has been connected in the meantime.
\<close>

theorem sendControlChange_failed_attempt_starts_window:
  assumes "midi_characteristic s = None"
    and "minIntervalMs s \<le> now - lastSendMs s"
  shows "sendControlChange now answer cc v s
       = (Inl (Error ''Not connected''), s\<lparr>lastSendMs := now\<rparr>, [])
     \<and> (now' - now < minIntervalMs s \<longrightarrow>
         sendControlChange now' answer' cc' v'
           (midi_connected dev srv ch (s\<lparr>lastSendMs := now\<rparr>))
         = (Inr (), midi_connected dev srv ch (s\<lparr>lastSendMs := now\<rparr>), []))"
  using assms by (simp add: sendControlChange_def midi_connected_def)

theorem sendControlChange_failed_attempt_witness:
  "sendControlChange 100 None 7 64 midi_initial
       = (Inl (Error ''Not connected''), midi_initial\<lparr>lastSendMs := 100\<rparr>, [])
   \<and> sendControlChange 105 None 7 64
         (midi_connected 10 11 12 (midi_initial\<lparr>lastSendMs := 100\<rparr>))
       = (Inr (), midi_connected 10 11 12 (midi_initial\<lparr>lastSendMs := 100\<rparr>), [])"
proof -
  have h1: "midi_characteristic midi_initial = None"
    by (simp add: midi_initial_def)
  have h2: "minIntervalMs midi_initial \<le> 100 - lastSendMs midi_initial"
    by (simp add: midi_initial_def)
  have h3: "(105::real) - 100 < minIntervalMs midi_initial"
    by (simp add: midi_initial_def)
  show ?thesis
    using sendControlChange_failed_attempt_starts_window [OF h1 h2, where now' = 105] h3
    by simp
qed

section \<open>Properties of the transport session\<close>

lemma cleanup_presets:
  "presetSaveCharacteristic (fst (cleanup s)) = presetSaveCharacteristic s"
  "presetLoadCharacteristic (fst (cleanup s)) = presetLoadCharacteristic s"
  "presetListCharacteristic (fst (cleanup s)) = presetListCharacteristic s"
  "presetDeleteCharacteristic (fst (cleanup s)) = presetDeleteCharacteristic s"
  by (simp_all add: cleanup_def)

lemma onDisconnected_presets:
  "presetSaveCharacteristic (fst (onDisconnected s)) = presetSaveCharacteristic s"
  "presetLoadCharacteristic (fst (onDisconnected s)) = presetLoadCharacteristic s"
  "presetListCharacteristic (fst (onDisconnected s)) = presetListCharacteristic s"
  "presetDeleteCharacteristic (fst (onDisconnected s)) = presetDeleteCharacteristic s"
  by (simp_all add: onDisconnected_def cleanup_def)

lemma preset_chain_onDisconnected: "preset_chain (fst (onDisconnected s)) = preset_chain s"
  by (simp add: preset_chain_def onDisconnected_presets)

lemma preset_chain_fire: "preset_chain (fst (fire_disconnected n s)) = preset_chain s"
proof (induction n arbitrary: s)
  case 0
  then show ?case by simp
next
  case (Suc n)
  have "fst (fire_disconnected (Suc n) s) = fst (fire_disconnected n (fst (onDisconnected s)))"
    by (simp add: split_beta)
  then show ?case by (simp only: Suc preset_chain_onDisconnected)
qed

lemma preset_chain_device: "preset_chain (s\<lparr>device := d\<rparr>) = preset_chain s"
  by (simp add: preset_chain_def)

lemma preset_chain_disconnect: "preset_chain (fst (disconnect fired s)) = preset_chain s"
proof -
  have c: "preset_chain (fst (cleanup t)) = preset_chain t" for t
    by (simp add: preset_chain_def cleanup_presets)
  show ?thesis
    by (simp add: disconnect_def split_beta c preset_chain_fire preset_chain_device
        split: option.split)
qed

lemma preset_chain_device_lost: "preset_chain (fst (device_lost s)) = preset_chain s"
  by (simp add: device_lost_def preset_chain_onDisconnected preset_chain_device
      split: option.split)

lemma preset_chain_discover:
  "preset_chain s \<Longrightarrow> preset_chain (discover_presets env s)"
  by (simp add: preset_chain_def discover_presets_def Let_def split: option.split)

lemma preset_chain_connect:
  assumes "preset_chain s"
  shows "preset_chain (fst (snd (connect env s)))"
proof -
  have u: "preset_chain (t\<lparr>device := d, server := v\<rparr>) = preset_chain t" 
    "preset_chain (t\<lparr>characteristic := c\<rparr>) = preset_chain t" for t d v c
    by (simp_all add: preset_chain_def)
  show ?thesis
    using assms
    by (simp add: connect_def connect_failed_def Let_def preset_chain_device u
        preset_chain_discover split: sum.split option.split)
qed

lemma reachable_preset_chain: "reachable s \<Longrightarrow> preset_chain s"
proof (induction rule: reachable.induct)
  case new
  then show ?case by (simp add: preset_chain_def BLEClient_new_def)
next
  case (status_callback s callback)
  then show ?case by (simp add: preset_chain_def setStatusChangeCallback_def)
next
  case (data_callback s callback)
  then show ?case by (simp add: preset_chain_def setDataReceivedCallback_def)
next
  case (connect s env)
  then show ?case by (simp add: preset_chain_connect)
next
  case (disconnect s fired)
  then show ?case by (simp add: preset_chain_disconnect)
next
  case (device_lost s)
  then show ?case by (simp add: preset_chain_device_lost)
qed

lemma old_session_eq:
  "old_session = \<lparr>device = Some \<lparr>device_id = 20, gatt = Some True\<rparr>, server = Some 21,
     characteristic = Some 22, onStatusChange = Some 30, onDataReceived = None,
     presetSaveCharacteristic = None, presetLoadCharacteristic = None,
     presetListCharacteristic = None, presetDeleteCharacteristic = None\<rparr>"
  by (simp add: old_session_def connect_def old_firmware_def kb1_device_def BLEClient_new_def
      setStatusChangeCallback_def discover_presets_def notifyStatusChange_def)

lemma new_session_eq:
  "new_session = \<lparr>device = Some \<lparr>device_id = 20, gatt = Some True\<rparr>, server = Some 21,
     characteristic = Some 22, onStatusChange = Some 30, onDataReceived = None,
     presetSaveCharacteristic = Some 23, presetLoadCharacteristic = Some 24,
     presetListCharacteristic = Some 25, presetDeleteCharacteristic = Some 26\<rparr>"
  by (simp add: new_session_def connect_def new_firmware_def kb1_device_def BLEClient_new_def
      setStatusChangeCallback_def discover_presets_def notifyStatusChange_def)

lemma reachable_old_session: "reachable old_session"
  unfolding old_session_def by (intro reachable.connect reachable.status_callback reachable.new)




text \<open>
  Where the save characteristic is absent, the four preset operations fail fast. In every
  state the client can reach with \<open>hasDevicePresetSupport\<close> false, each of them throws
  \<open>Device presets not supported\<close> and touches nothing: no write, no read, no call of
  \<open>loadFromDevice\<close>.
\<close>

lemma fail_fast_without_save_characteristic:
  assumes "reachable s" "\<not> hasDevicePresetSupport s"
  shows "saveDevicePreset slot_no nm answer s = (Inl (Error ''Device presets not supported''), [])
     \<and> loadDevicePreset slot_no answer loadFromDevice s
         = (Inl (Error ''Device presets not supported''), [])
     \<and> listDevicePresets answer' s = (Inl (Error ''Device presets not supported''), [])
     \<and> deleteDevicePreset slot_no answer s = (Inl (Error ''Device presets not supported''), [])"
  using reachable_preset_chain [OF assms(1)] assms(2)
  by (simp add: preset_chain_def hasDevicePresetSupport_def saveDevicePreset_def
      loadDevicePreset_def listDevicePresets_def deleteDevicePreset_def)

text \<open>
  A \<open>connect()\<close> that does not discover the save characteristic leaves the field as it
  was: the flag is false afterwards only if it was false before.
\<close>

lemma connect_without_presets:
  assumes "preset_save env = None"
  shows "hasDevicePresetSupport (fst (snd (connect env s))) = hasDevicePresetSupport s"
  using assms
  by (simp add: connect_def connect_failed_def discover_presets_def hasDevicePresetSupport_def
      Let_def split: sum.split option.split)

lemma first_session_fail_fast:
  "hasDevicePresetSupport old_session = False
   \<and> saveDevicePreset 0 (js ''Test'') None old_session
       = (Inl (Error ''Device presets not supported''), [])
   \<and> loadDevicePreset 0 None (Inr (), []) old_session
       = (Inl (Error ''Device presets not supported''), [])
   \<and> listDevicePresets (Inr (DataView_of [])) old_session
       = (Inl (Error ''Device presets not supported''), [])
   \<and> deleteDevicePreset 0 None old_session
       = (Inl (Error ''Device presets not supported''), [])"
proof -
  have h: "\<not> hasDevicePresetSupport old_session"
    by (simp add: hasDevicePresetSupport_def old_session_eq)
  show ?thesis
    using fail_fast_without_save_characteristic [OF reachable_old_session h, of 0 "js ''Test''"
        None "(Inr (), [])" "Inr (DataView_of [])"] h
    by simp
qed

lemma downgraded_session_eq:
  "reconnect_to_old_firmware =
     (Inr (),
      \<lparr>device = Some \<lparr>device_id = 20, gatt = Some True\<rparr>, server = Some 21,
       characteristic = Some 22, onStatusChange = Some 30, onDataReceived = None,
       presetSaveCharacteristic = Some 23, presetLoadCharacteristic = Some 24,
       presetListCharacteristic = Some 25, presetDeleteCharacteristic = Some 26\<rparr>,
      [Listener_added 20, Listener_added 22,
       Status_changed 30
         \<lparr>connected = True, status_device = Some \<lparr>device_id = 20, gatt = Some True\<rparr>,
          error = None\<rparr>])"
  by (simp add: reconnect_to_old_firmware_def new_session_eq disconnect_def onDisconnected_def
      cleanup_def notifyStatusChange_def connect_def old_firmware_def kb1_device_def
      discover_presets_def)

text \<open>
  Claim C7 fails on the code when the client has had an earlier session. \<open>cleanup\<close>
  clears \<open>this.characteristic\<close> and \<open>this.server\<close> but not the four preset fields, and
  the \<open>catch\<close> block of the discovery leaves them as they were. After a session with the
  newer firmware and \<open>disconnect()\<close>, a \<open>connect()\<close> to a device with the older firmware
  succeeds without discovering the save characteristic; all the same
  \<open>hasDevicePresetSupport()\<close> answers true (it is documented as ``Check if device supports
  presets''), and \<open>saveDevicePreset(0, "Test")\<close> hands the 33-byte frame to the handle of
  the earlier session instead of throwing \<open>Device presets not supported\<close>. The other three
  operations reach the transport in the same way.
\<close>

theorem stale_preset_handles_reach_transport:
  "preset_save old_firmware = None
   \<and> fst reconnect_to_old_firmware = Inr ()
   \<and> hasDevicePresetSupport downgraded_session
   \<and> saveDevicePreset 0 (js ''Test'') None downgraded_session
       = (Inr (), [Write_value 23 (0 # [0x54, 0x65, 0x73, 0x74] @ replicate 28 0)])
   \<and> loadDevicePreset 0 None (Inr (), []) downgraded_session = (Inr (), [Write_value 24 [0]])
   \<and> snd (listDevicePresets (Inr (DataView_of [])) downgraded_session) = [Read_value 25]
   \<and> deleteDevicePreset 0 None downgraded_session = (Inr (), [Write_value 26 [0]])"
proof -
  have e: "encodePresetSave 0 (js ''Test'') = Inr (0 # [0x54, 0x65, 0x73, 0x74] @ replicate 28 0)"
    using encodePresetSave_Test by simp
  show ?thesis
    by (simp add: downgraded_session_def downgraded_session_eq old_firmware_def
        hasDevicePresetSupport_def saveDevicePreset_def loadDevicePreset_def
        listDevicePresets_def deleteDevicePreset_def e encodePresetLoad_def
        encodePresetDelete_def MAX_SLOTS_def)
qed




section \<open>Properties of the keep-alive scheduler\<close>

lemma checkAndSendPing_state: "fst (snd (checkAndSendPing now outcome s)) = s"
  by (simp add: checkAndSendPing_def sendPing_def split: option.split ping_outcome.split)

lemma scheduled_timer_callback:
  "scheduled s \<Longrightarrow> pingInterval s \<noteq> None \<Longrightarrow> isRunning s \<and> sendPingCallback s \<noteq> None"
proof (induction rule: scheduled.induct)
  case (created config now)
  then show ?case by (simp add: KeepAliveService_new_def)
next
  case (callback_set s callback)
  then show ?case by (simp add: setPingCallback_def)
next
  case (started s now timer)
  then show ?case by (auto simp: startKeepAlive_def split: if_splits)
next
  case (stopped s)
  then show ?case by (auto simp: stopKeepAlive_def split: if_splits)
next
  case (active s now)
  then show ?case by (simp add: activity_def)
next
  case (ticked s now outcome)
  then show ?case by (simp add: checkAndSendPing_state)
qed

lemma default_scheduler_eq:
  "default_scheduler =
     \<lparr>pingInterval = Some 41,
      activityTracker = \<lparr>lastActivity = 0, tracking = True, throttleDelay = 500\<rparr>,
      sendPingCallback = Some 40, isRunning = True, PING_INTERVAL = 45000,
      ACTIVITY_TIMEOUT = 120000\<rparr>"
  by (simp add: default_scheduler_def startKeepAlive_def setPingCallback_def
      KeepAliveService_new_def ActivityTracker_new_def tracker_start_def)

lemma scheduled_default_scheduler: "scheduled default_scheduler"
  unfolding default_scheduler_def
  by (intro scheduled.started scheduled.callback_set scheduled.created)

text \<open>
  Claim C5. On a tick of the timer, at time \<open>now\<close>, the ping callback is called if and
  only if the time since the last activity is strictly below the activity timeout;
  otherwise the tick only logs that it skips.
\<close>

theorem tick_pings_iff_recent_activity:
  assumes "scheduled s" "pingInterval s \<noteq> None"
  shows "((\<exists>callback. Ping_called callback \<in> set (snd (snd (checkAndSendPing now outcome s))))
          \<longleftrightarrow> now - lastActivity (activityTracker s) < ACTIVITY_TIMEOUT s)
     \<and> (\<not> now - lastActivity (activityTracker s) < ACTIVITY_TIMEOUT s \<longrightarrow>
          snd (snd (checkAndSendPing now outcome s))
            = [Console_log ''Skipping ping - no recent activity''])"
proof -
  from scheduled_timer_callback [OF assms] obtain callback
    where c: "sendPingCallback s = Some callback" by auto
  show ?thesis
    by (auto simp: checkAndSendPing_def sendPing_def shouldSendPing_def
        tracker_getTimeSinceActivity_def c split: ping_outcome.split)
qed

theorem tick_pings_iff_recent_activity_witness:
  "Ping_called 40 \<in> set (snd (snd (checkAndSendPing 119000 Resolves default_scheduler)))
   \<and> snd (snd (checkAndSendPing 121000 Resolves default_scheduler))
       = [Console_log ''Skipping ping - no recent activity'']
   \<and> snd (snd (checkAndSendPing 120000 Resolves default_scheduler))
       = [Console_log ''Skipping ping - no recent activity'']"
proof -
  have t: "pingInterval default_scheduler \<noteq> None"
    by (simp add: default_scheduler_eq)
  have v: "lastActivity (activityTracker default_scheduler) = 0"
    "ACTIVITY_TIMEOUT default_scheduler = 120000"
    by (simp_all add: default_scheduler_eq)
  have "\<exists>callback. Ping_called callback
          \<in> set (snd (snd (checkAndSendPing 119000 Resolves default_scheduler)))"
    using tick_pings_iff_recent_activity [OF scheduled_default_scheduler t, of 119000 Resolves]
    by (simp add: v)
  then have "Ping_called 40 \<in> set (snd (snd (checkAndSendPing 119000 Resolves default_scheduler)))"
    by (auto simp: checkAndSendPing_def sendPing_def default_scheduler_eq split: if_splits)
  moreover have "snd (snd (checkAndSendPing 121000 Resolves default_scheduler))
       = [Console_log ''Skipping ping - no recent activity'']"
    using tick_pings_iff_recent_activity [OF scheduled_default_scheduler t, of 121000 Resolves]
    by (simp add: v)
  moreover have "snd (snd (checkAndSendPing 120000 Resolves default_scheduler))
       = [Console_log ''Skipping ping - no recent activity'']"
    using tick_pings_iff_recent_activity [OF scheduled_default_scheduler t, of 120000 Resolves]
    by (simp add: v)
  ultimately show ?thesis by blast
qed

text \<open>
  Claim C8. When the ping callback fails on a tick, by rejecting or by throwing, the
  promise of the tick still resolves, so nothing reaches the timer; a warning is logged;
  the scheduler is untouched: it is still running, its timer handle is the same and no
  timer was cleared; and the next tick with recent activity calls the callback again.
\<close>

theorem ping_failure_is_swallowed:
  assumes "scheduled s" "pingInterval s = Some timer"
    and "outcome = Rejects e \<or> outcome = Throws e"
    and "now - lastActivity (activityTracker s) < ACTIVITY_TIMEOUT s"
  shows "fst (checkAndSendPing now outcome s) = Inr ()
     \<and> Console_warn ''Keep-alive ping failed:'' \<in> set (snd (snd (checkAndSendPing now outcome s)))
     \<and> (\<forall>t. Interval_cleared t \<notin> set (snd (snd (checkAndSendPing now outcome s))))
     \<and> KeepAlive_isActive (fst (snd (checkAndSendPing now outcome s)))
     \<and> pingInterval (fst (snd (checkAndSendPing now outcome s))) = Some timer
     \<and> (now' - lastActivity (activityTracker s) < ACTIVITY_TIMEOUT s \<longrightarrow>
          (\<exists>callback. Ping_called callback
             \<in> set (snd (snd (checkAndSendPing now' outcome'
                                (fst (snd (checkAndSendPing now outcome s))))))))"
proof -
  from assms(2) have t: "pingInterval s \<noteq> None" by simp
  from scheduled_timer_callback [OF assms(1) t] obtain callback
    where c: "sendPingCallback s = Some callback" and r: "isRunning s" by auto
  have e: "checkAndSendPing now outcome s
      = (Inr (), s, [Ping_called callback, Console_warn ''Keep-alive ping failed:''])"
    using assms(3,4)
    by (auto simp: checkAndSendPing_def sendPing_def shouldSendPing_def
        tracker_getTimeSinceActivity_def c)
  have n: "now' - lastActivity (activityTracker s) < ACTIVITY_TIMEOUT s \<Longrightarrow>
      Ping_called callback \<in> set (snd (snd (checkAndSendPing now' outcome' s)))"
    by (auto simp: checkAndSendPing_def sendPing_def shouldSendPing_def
        tracker_getTimeSinceActivity_def c split: ping_outcome.split)
  show ?thesis
    unfolding e using r assms(2) n by (auto simp: KeepAlive_isActive_def)
qed

theorem ping_failure_is_swallowed_witness:
  "checkAndSendPing 45000 (Rejects (Error ''GATT operation failed'')) default_scheduler
     = (Inr (), default_scheduler, [Ping_called 40, Console_warn ''Keep-alive ping failed:''])
   \<and> KeepAlive_isActive default_scheduler
   \<and> pingInterval default_scheduler = Some 41
   \<and> Ping_called 40 \<in> set (snd (snd (checkAndSendPing 90000 Resolves default_scheduler)))"
proof -
  have t: "pingInterval default_scheduler = Some 41"
    by (simp add: default_scheduler_eq)
  have v: "lastActivity (activityTracker default_scheduler) = 0"
    "ACTIVITY_TIMEOUT default_scheduler = 120000"
    by (simp_all add: default_scheduler_eq)
  have o: "Rejects (Error ''GATT operation failed'') = Rejects (Error ''GATT operation failed'')
      \<or> Rejects (Error ''GATT operation failed'') = Throws (Error ''GATT operation failed'')"
    by simp
  have a: "(45000::int) - lastActivity (activityTracker default_scheduler)
      < ACTIVITY_TIMEOUT default_scheduler"
    by (simp add: v)
  have s: "fst (snd (checkAndSendPing 45000 (Rejects (Error ''GATT operation failed''))
      default_scheduler)) = default_scheduler"
    by (rule checkAndSendPing_state)
  from ping_failure_is_swallowed [OF scheduled_default_scheduler t o a,
      where now' = 90000 and outcome' = Resolves]
  have "KeepAlive_isActive default_scheduler"
    and "\<exists>callback. Ping_called callback
          \<in> set (snd (snd (checkAndSendPing 90000 Resolves default_scheduler)))"
    by (simp_all add: s v)
  then show ?thesis
    by (auto simp: checkAndSendPing_def sendPing_def shouldSendPing_def
        tracker_getTimeSinceActivity_def default_scheduler_eq t split: if_splits)
qed

end
